theory Spec2Isabelle
  imports Main "HOL-Library.Char_ord" "HOL-Library.List_Lexorder"
begin

section \<open>XMLBIF reader and writer of pgmpy (pgmpy/readwrite/XMLBIF.py)\<close>

text \<open>
  The module reads and writes Bayesian networks in the XMLBIF format on top of an
  ElementTree library. The embedding keeps the module's two classes, their methods and
  their names. The ElementTree library, \<open>float\<close> and numpy are not part of the module:
  the element tree is modelled by its data (tag, attributes, text, tail, children), the
  two tree queries the module uses (\<open>find\<close>, \<open>findall\<close>) and \<open>SubElement\<close> are written
  out, the XML parser and serialiser, the library's check of the strings it takes as
  the text of an element, and \<open>float\<close> are parameters.

  Python strings are lists of characters here; a text that is absent (\<open>None\<close>) is
  \<open>None\<close> of an option type. A Python \<open>dict\<close> is an association list in insertion
  order: assigning an existing key replaces its value in place, assigning a new key
  appends it, and iteration runs through the list.
\<close>

subsection \<open>Exceptions\<close>

datatype error =
    ValueError string
  | AttributeError
  | KeyError "string option"
  | ZeroDivisionError
  | ParseError
  | IOError

text \<open>Sequencing of computations that may raise.\<close>

definition ebind :: "error + 'a \<Rightarrow> ('a \<Rightarrow> error + 'b) \<Rightarrow> error + 'b" where
  "ebind m f = (case m of Inl e \<Rightarrow> Inl e | Inr x \<Rightarrow> f x)"

text \<open>A comprehension or loop body run over a list, stopping at the first exception.\<close>

fun emap :: "('a \<Rightarrow> error + 'b) \<Rightarrow> 'a list \<Rightarrow> error + 'b list" where
  "emap f [] = Inr []"
| "emap f (x # xs) =
     (case f x of
        Inl e \<Rightarrow> Inl e
      | Inr y \<Rightarrow> (case emap f xs of Inl e \<Rightarrow> Inl e | Inr ys \<Rightarrow> Inr (y # ys)))"

fun efold :: "('a \<Rightarrow> 's \<Rightarrow> error + 's) \<Rightarrow> 'a list \<Rightarrow> 's \<Rightarrow> error + 's" where
  "efold f [] s = Inr s"
| "efold f (x # xs) s = (case f x s of Inl e \<Rightarrow> Inl e | Inr s' \<Rightarrow> efold f xs s')"

subsection \<open>Dictionaries\<close>

type_synonym ('k, 'v) dict = "('k \<times> 'v) list"

fun setitem :: "'k \<Rightarrow> 'v \<Rightarrow> ('k, 'v) dict \<Rightarrow> ('k, 'v) dict" where
  "setitem k v [] = [(k, v)]"
| "setitem k v (p # ps) = (if fst p = k then (k, v) # ps else p # setitem k v ps)"

definition getitem :: "('k, 'v) dict \<Rightarrow> 'k \<Rightarrow> 'v option" where
  "getitem d k = map_of d k"

definition keys :: "('k, 'v) dict \<Rightarrow> 'k list" where
  "keys d = map fst d"

text \<open>\<open>{k: v for (k, v) in items}\<close>: the items are assigned one after the other.\<close>

definition dict_of :: "('k \<times> 'v) list \<Rightarrow> ('k, 'v) dict" where
  "dict_of items = foldl (\<lambda>d (k, v). setitem k v d) [] items"

subsection \<open>Element trees\<close>

datatype element =
  Element (tag: string) (attrib: "(string \<times> string) list")
          (etext: "string option") (tail: "string option") (children: "element list")

definition findall :: "string \<Rightarrow> element \<Rightarrow> element list" where
  "findall t e = filter (\<lambda>c. tag c = t) (children e)"

definition find_elem :: "string \<Rightarrow> element \<Rightarrow> element option" where
  "find_elem t e = (case findall t e of [] \<Rightarrow> None | c # _ \<Rightarrow> Some c)"

text \<open>
  \<open>x.find(t).text\<close> and \<open>x.find(t).find(u)\<close>: \<open>find\<close> returns \<open>None\<close> when there is no
  such child, and an attribute access on \<open>None\<close> raises AttributeError.
\<close>

definition find_text :: "string \<Rightarrow> element \<Rightarrow> error + string option" where
  "find_text t e = (case find_elem t e of None \<Rightarrow> Inl AttributeError | Some c \<Rightarrow> Inr (etext c))"

subsection \<open>What the module takes from its libraries\<close>

text \<open>
  \<open>parse_file p\<close> is \<open>etree.ElementTree(file=p).getroot()\<close>, \<open>fromstring s\<close> is
  \<open>etree.fromstring(s)\<close> and \<open>tostring e enc\<close> is \<open>etree.tostring(e, encoding=enc)\<close>.
  The module imports \<open>etree\<close> from lxml and, when lxml is not installed, from
  \<open>xml.etree\<close>. The two differ in what an element takes as its text: lxml raises
  ValueError when a string with a NUL or another control character is assigned to
  \<open>e.text\<close>, \<open>xml.etree\<close> takes every string. \<open>valid_text s\<close> says that the library
  takes the string \<open>s\<close> as a text.
\<close>

record etree =
  parse_file :: "string \<Rightarrow> error + element"
  fromstring :: "string \<Rightarrow> error + element"
  tostring :: "element \<Rightarrow> string \<Rightarrow> string"
  valid_text :: "string \<Rightarrow> bool"

text \<open>
  \<open>e.text = s\<close>: the value that the assignment stores, or the library's ValueError.
\<close>

definition text_value :: "etree \<Rightarrow> string \<Rightarrow> error + string option" where
  "text_value lib s =
     (if valid_text lib s then Inr (Some s)
      else Inl (ValueError ''All strings must be XML compatible''))"

text \<open>Whitespace as \<open>str.split()\<close> and \<open>str.strip()\<close> see it (code points below 256).\<close>

definition isspace :: "char \<Rightarrow> bool" where
  "isspace c = (let n = (of_char c :: nat) in (9 \<le> n \<and> n \<le> 13) \<or> (28 \<le> n \<and> n \<le> 32) \<or> n = 133 \<or> n = 160)"

text \<open>\<open>s.split()\<close>: the maximal runs of non-whitespace characters; \<open>cur\<close> is the run being read, reversed.\<close>

fun split_from :: "string \<Rightarrow> string \<Rightarrow> string list" where
  "split_from cur [] = (if cur = [] then [] else [rev cur])"
| "split_from cur (c # cs) =
     (if isspace c then (if cur = [] then split_from [] cs else rev cur # split_from [] cs)
      else split_from (c # cur) cs)"

definition split :: "string \<Rightarrow> string list" where
  "split s = split_from [] s"

text \<open>
  \<open>np.array(xs).reshape((k, m))\<close> on a flat list: numpy raises ValueError unless
  \<open>k * m\<close> is the number of elements, and fills the rows in C order. The two-dimensional
  array is the list of its rows.
\<close>

definition reshape :: "nat \<times> nat \<Rightarrow> 'f list \<Rightarrow> error + 'f list list" where
  "reshape shape xs =
     (case shape of (k, m) \<Rightarrow>
        if k * m = length xs then Inr (map (\<lambda>i. take m (drop (i * m) xs)) [0..<k])
        else Inl (ValueError ''cannot reshape array''))"

subsection \<open>XMLBIFReader\<close>

text \<open>
  In the methods below \<open>net\<close> is \<open>self.network\<close>, \<open>vparents\<close> is
  \<open>self.variable_parents\<close> and \<open>vstates\<close> is \<open>self.variable_states\<close>.
\<close>

definition get_variables :: "element \<Rightarrow> error + string option list" where
  "get_variables net = emap (\<lambda>variable. find_text ''NAME'' variable) (findall ''VARIABLE'' net)"

definition get_edges :: "(string option, string option list) dict \<Rightarrow> string option list list" where
  "get_edges vparents =
     concat (map (\<lambda>(key, vals). map (\<lambda>value. [value, key]) vals) vparents)"

definition get_states :: "element \<Rightarrow> error + (string option, string option list) dict" where
  "get_states net =
     ebind (emap (\<lambda>variable.
                    ebind (find_text ''NAME'' variable)
                      (\<lambda>name. Inr (name, map etext (findall ''OUTCOME'' variable))))
                 (findall ''VARIABLE'' net))
       (\<lambda>items. Inr (dict_of items))"

definition get_parents :: "element \<Rightarrow> error + (string option, string option list) dict" where
  "get_parents net =
     ebind (emap (\<lambda>definition.
                    ebind (find_text ''FOR'' definition)
                      (\<lambda>name. Inr (name, rev (map etext (findall ''GIVEN'' definition)))))
                 (findall ''DEFINITION'' net))
       (\<lambda>items. Inr (dict_of items))"

text \<open>
  \<open>get_cpd\<close>, first statement: one item per TABLE child of each DEFINITION, the key
  evaluated before the value. \<open>table.text.split()\<close> raises AttributeError when the TABLE
  has no text, \<open>float\<close> raises ValueError on a token it does not accept.
\<close>

definition table_values :: "(string \<Rightarrow> 'f option) \<Rightarrow> element \<Rightarrow> error + 'f list" where
  "table_values float table =
     (case etext table of
        None \<Rightarrow> Inl AttributeError
      | Some s \<Rightarrow>
          emap (\<lambda>tok. case float tok of
                         None \<Rightarrow> Inl (ValueError ''could not convert string to float'')
                       | Some x \<Rightarrow> Inr x)
               (split s))"

definition definition_tables :: "element \<Rightarrow> (element \<times> element) list" where
  "definition_tables net =
     concat (map (\<lambda>definition. map (\<lambda>table. (definition, table)) (findall ''TABLE'' definition))
                 (findall ''DEFINITION'' net))"

definition cpd_item :: "(string \<Rightarrow> 'f option) \<Rightarrow> element \<times> element \<Rightarrow> error + (string option \<times> 'f list)" where
  "cpd_item float dt =
     (case dt of (definition, table) \<Rightarrow>
        ebind (find_text ''FOR'' definition)
          (\<lambda>name. ebind (table_values float table) (\<lambda>vals. Inr (name, vals))))"

definition cpd_lists :: "(string \<Rightarrow> 'f option) \<Rightarrow> element \<Rightarrow> error + (string option, 'f list) dict" where
  "cpd_lists float net =
     ebind (emap (cpd_item float) (definition_tables net)) (\<lambda>items. Inr (dict_of items))"

text \<open>
  \<open>get_cpd\<close>, the loop: each value of the dictionary is replaced, in iteration order,
  by its reshaped array; the keys and their order do not change. Looking the variable
  up in \<open>variable_states\<close> raises KeyError, \<open>arr.size // 0\<close> raises ZeroDivisionError.
\<close>

definition cpd_array ::
  "(string option, string option list) dict \<Rightarrow> string option \<times> 'f list
     \<Rightarrow> error + (string option \<times> 'f list list)" where
  "cpd_array vstates item =
     (case item of (variable, arr) \<Rightarrow>
        (case getitem vstates variable of
           None \<Rightarrow> Inl (KeyError variable)
         | Some sts \<Rightarrow>
             if length sts = 0 then Inl ZeroDivisionError
             else ebind (reshape (length sts, length arr div length sts) arr)
                    (\<lambda>arr'. Inr (variable, arr'))))"

definition get_cpd ::
  "(string \<Rightarrow> 'f option) \<Rightarrow> element \<Rightarrow> (string option, string option list) dict
     \<Rightarrow> error + (string option, 'f list list) dict" where
  "get_cpd float net vstates =
     ebind (cpd_lists float net) (\<lambda>variable_CPD. emap (cpd_array vstates) variable_CPD)"

definition get_property :: "element \<Rightarrow> error + (string option, string option list) dict" where
  "get_property net =
     ebind (emap (\<lambda>variable.
                    ebind (find_text ''NAME'' variable)
                      (\<lambda>name. Inr (name, map etext (findall ''PROPERTY'' variable))))
                 (findall ''VARIABLE'' net))
       (\<lambda>items. Inr (dict_of items))"

record 'f XMLBIFReader =
  network :: element
  network_name :: "string option"
  variables :: "string option list"
  variable_parents :: "(string option, string option list) dict"
  edge_list :: "string option list list"
  variable_states :: "(string option, string option list) dict"
  variable_CPD :: "(string option, 'f list list) dict"
  variable_property :: "(string option, string option list) dict"

text \<open>
  \<open>__init__\<close> after \<open>self.network\<close> is set (lines 46 to 52); \<open>self.network\<close> is \<open>None\<close>
  when the root has no NETWORK child, and \<open>None.find\<close> raises AttributeError.
\<close>

definition init_fields :: "(string \<Rightarrow> 'f option) \<Rightarrow> element option \<Rightarrow> error + 'f XMLBIFReader" where
  "init_fields float self_network =
     (case self_network of
        None \<Rightarrow> Inl AttributeError
      | Some net \<Rightarrow>
          ebind (find_text ''NAME'' net) (\<lambda>name.
          ebind (get_variables net) (\<lambda>vars.
          ebind (get_parents net) (\<lambda>pars.
          ebind (get_states net) (\<lambda>sts.
          ebind (get_cpd float net sts) (\<lambda>cpds.
          ebind (get_property net) (\<lambda>props.
          Inr \<lparr>network = net, network_name = name, variables = vars,
               variable_parents = pars, edge_list = get_edges pars,
               variable_states = sts, variable_CPD = cpds,
               variable_property = props\<rparr>)))))))"

text \<open>An argument that Python's \<open>if\<close> takes as true: not \<open>None\<close> and not the empty string.\<close>

definition truthy :: "string option \<Rightarrow> string option" where
  "truthy a = (case a of None \<Rightarrow> None | Some s \<Rightarrow> if s = [] then None else Some s)"

definition XMLBIFReader_init ::
  "etree \<Rightarrow> (string \<Rightarrow> 'f option) \<Rightarrow> string option \<Rightarrow> string option \<Rightarrow> error + 'f XMLBIFReader" where
  "XMLBIFReader_init lib float path string =
     (case truthy path of
        Some p \<Rightarrow> ebind (parse_file lib p) (\<lambda>root. init_fields float (find_elem ''NETWORK'' root))
      | None \<Rightarrow>
          (case truthy string of
             Some s \<Rightarrow> ebind (fromstring lib s) (\<lambda>root. init_fields float (find_elem ''NETWORK'' root))
           | None \<Rightarrow> Inl (ValueError ''Must specify either path or string'')))"

subsection \<open>XMLBIFWriter\<close>

text \<open>
  The writer's input \<open>model_data\<close> is a dictionary read under the keys
  \<open>'network_name'\<close>, \<open>'variables'\<close>, \<open>'states'\<close>, \<open>'parents'\<close> and \<open>'property'\<close>; a key
  that is not in the dictionary is \<open>None\<close> here, and reading it raises KeyError.
\<close>

record model_data =
  network_name :: "string option"
  variables :: "string list option"
  states :: "(string, string list) dict option"
  parents :: "(string, string list) dict option"
  property :: "(string, string list) dict option"

text \<open>
  \<open>etree.SubElement(parent, t, attrib)\<close> appends a new child to \<open>parent\<close>; the last
  argument is the text that the new child holds after \<open>etree.SubElement(...).text = x\<close>,
  or \<open>None\<close> where the module assigns none. The assignment of the text may raise
  (\<open>text_value\<close>): the exception leaves the constructor, so the element that was appended
  before it is not seen again, and the model raises before it appends. The module keeps
  references to the VARIABLE and DEFINITION elements it has appended to \<open>self.network\<close>
  and appends children to them later: such a reference is the position of the element
  among the children of \<open>self.network\<close>, and \<open>at i f\<close> applies \<open>f\<close> to the child at
  position \<open>i\<close>.
\<close>

definition append_child :: "element \<Rightarrow> element \<Rightarrow> element" where
  "append_child parent c =
     Element (tag parent) (attrib parent) (etext parent) (tail parent) (children parent @ [c])"

definition SubElement :: "element \<Rightarrow> string \<Rightarrow> (string \<times> string) list \<Rightarrow> string option \<Rightarrow> element" where
  "SubElement parent t a txt = append_child parent (Element t a txt None [])"

definition at :: "nat \<Rightarrow> (element \<Rightarrow> element) \<Rightarrow> element \<Rightarrow> element" where
  "at i f parent =
     Element (tag parent) (attrib parent) (etext parent) (tail parent)
             ((children parent)[i := f (children parent ! i)])"

text \<open>The body of the first loop of \<open>add_variables\<close>, on \<open>(self.network, variable_tag)\<close>.\<close>

definition new_variable :: "string \<Rightarrow> element \<times> (string, nat) dict \<Rightarrow> element \<times> (string, nat) dict" where
  "new_variable var s =
     (case s of (net, variable_tag) \<Rightarrow>
        (SubElement net ''VARIABLE'' [(''TYPE'', ''nature'')] None,
         setitem var (length (children net)) variable_tag))"

text \<open>
  The second and third loops of \<open>add_variables\<close>: for every key of the dictionary and every
  string of its list, a child with tag \<open>t\<close> under \<open>variable_tag[variable]\<close>; the lookup is
  made once per string, and raises KeyError; the string is then assigned as the text of
  the new child.
\<close>

definition add_texts ::
  "etree \<Rightarrow> string \<Rightarrow> (string, nat) dict \<Rightarrow> (string, string list) dict \<Rightarrow> element
     \<Rightarrow> error + element" where
  "add_texts lib t variable_tag d net =
     efold (\<lambda>(variable, vals) net1.
              efold (\<lambda>v net2.
                       case getitem variable_tag variable of
                         None \<Rightarrow> Inl (KeyError (Some variable))
                       | Some i \<Rightarrow>
                           ebind (text_value lib v)
                             (\<lambda>txt. Inr (at i (\<lambda>e. SubElement e t [] txt) net2)))
                    vals net1)
           d net"

definition add_variables ::
  "etree \<Rightarrow> element \<Rightarrow> model_data \<Rightarrow> error + element \<times> (string, nat) dict" where
  "add_variables lib net md =
     (case model_data.variables md of
        None \<Rightarrow> Inl (KeyError (Some ''variables''))
      | Some vs \<Rightarrow>
          (case foldl (\<lambda>s var. new_variable var s) (net, []) (sort vs) of
             (net1, variable_tag) \<Rightarrow>
               (case states md of
                  None \<Rightarrow> Inl (KeyError (Some ''states''))
                | Some variables_states \<Rightarrow>
                    ebind (add_texts lib ''OUTCOME'' variable_tag variables_states net1) (\<lambda>net2.
                      (case property md of
                         None \<Rightarrow> Inl (KeyError (Some ''property''))
                       | Some variables_property \<Rightarrow>
                           ebind (add_texts lib ''PROPERTY'' variable_tag variables_property net2)
                             (\<lambda>net3. Inr (net3, variable_tag)))))))"

text \<open>
  The body of the loop of \<open>add_definition\<close>; \<open>var\<close> is a key of \<open>pars\<close>, so \<open>pars[var]\<close>
  does not raise. The DEFINITION element is appended and filed under \<open>var\<close>, then it is
  given its FOR child and, in a loop over the sorted parents, its GIVEN children.
\<close>

definition new_definition ::
  "etree \<Rightarrow> (string, string list) dict \<Rightarrow> string \<Rightarrow> element \<times> (string, nat) dict
     \<Rightarrow> error + element \<times> (string, nat) dict" where
  "new_definition lib pars var s =
     (case s of (net, definition_tag) \<Rightarrow>
        (let i = length (children net);
             net1 = SubElement net ''DEFINITION'' [] None;
             definition_tag1 = setitem var i definition_tag
         in ebind (text_value lib var) (\<lambda>txt.
            ebind (efold (\<lambda>child n.
                            ebind (text_value lib child)
                              (\<lambda>txt'. Inr (at i (\<lambda>d. SubElement d ''GIVEN'' [] txt') n)))
                         (sort (case getitem pars var of None \<Rightarrow> [] | Some ps \<Rightarrow> ps))
                         (at i (\<lambda>d. SubElement d ''FOR'' [] txt) net1))
              (\<lambda>net3. Inr (net3, definition_tag1)))))"

definition add_definition ::
  "etree \<Rightarrow> element \<Rightarrow> model_data \<Rightarrow> error + element \<times> (string, nat) dict" where
  "add_definition lib net md =
     (case parents md of
        None \<Rightarrow> Inl (KeyError (Some ''parents''))
      | Some pars \<Rightarrow> efold (\<lambda>var s. new_definition lib pars var s) (sort (keys pars)) (net, []))"

text \<open>
  \<open>self.xml\<close> holds \<open>self.network\<close> as its only child, so the tree of the finished writer
  is the BIF element around the finished NETWORK element. The field \<open>definition_tag\<close> is
  the attribute \<open>self.definition\<close>.
\<close>

record XMLBIFWriter =
  model :: model_data
  encoding :: string
  prettyprint :: bool
  xml :: element
  network :: element
  variables :: "(string, nat) dict"
  definition_tag :: "(string, nat) dict"

text \<open>
  \<open>__init__\<close>: the KeyError of \<open>self.model['network_name']\<close> is caught, and is raised
  before the NAME element is made (the right-hand side of the assignment is evaluated
  first); the ValueError of the assignment is not caught.
\<close>

definition XMLBIFWriter_init ::
  "etree \<Rightarrow> model_data \<Rightarrow> string \<Rightarrow> bool \<Rightarrow> error + XMLBIFWriter" where
  "XMLBIFWriter_init lib md enc pp =
     (let xml0 = Element ''BIF'' [(''version'', ''0.3'')] None None [];
          net0 = Element ''NETWORK'' [] None None []
      in ebind (case network_name md of
                  None \<Rightarrow> Inr net0
                | Some n \<Rightarrow> ebind (text_value lib n) (\<lambda>txt. Inr (SubElement net0 ''NAME'' [] txt)))
           (\<lambda>net1.
         ebind (add_variables lib net1 md) (\<lambda>(net2, vtag).
         ebind (add_definition lib net2 md) (\<lambda>(net3, dtag).
         Inr \<lparr>model = md, encoding = enc, prettyprint = pp,
              xml = append_child xml0 net3, network = net3,
              variables = vtag, definition_tag = dtag\<rparr>))))"

text \<open>\<open>not s or not s.strip()\<close>\<close>

definition blank :: "string option \<Rightarrow> bool" where
  "blank s = (case s of None \<Rightarrow> True | Some t \<Rightarrow> list_all isspace t)"

definition set_tail :: "string option \<Rightarrow> element \<Rightarrow> element" where
  "set_tail t e = Element (tag e) (attrib e) (etext e) t (children e)"

text \<open>
  \<open>indent\<close> changes the tree in place; the model returns the changed element. After the
  loop over the children, the loop variable is the last child, whose tail the fourth
  \<open>if\<close> then tests again.
\<close>

fun indent :: "element \<Rightarrow> nat \<Rightarrow> element" where
  "indent (Element t a tx ta cs) level =
     (let i = CHR 0x0A # concat (replicate level ''  '') in
      if cs \<noteq> [] then
        (let tx1 = (if blank tx then Some (i @ ''  '') else tx);
             ta1 = (if blank ta then Some i else ta);
             cs1 = map (\<lambda>c. indent c (level + 1)) cs;
             lst = last cs1;
             lst1 = (if blank (tail lst) then set_tail (Some i) lst else lst)
         in Element t a tx1 ta1 (butlast cs1 @ [lst1]))
      else Element t a tx (if level \<noteq> 0 \<and> blank ta then Some i else ta) cs)"

text \<open>\<open>__str__\<close>: the tree that is serialised, and its serialisation.\<close>

definition str_tree :: "XMLBIFWriter \<Rightarrow> element" where
  "str_tree w = (if prettyprint w then indent (xml w) 0 else xml w)"

definition XMLBIFWriter_str :: "etree \<Rightarrow> XMLBIFWriter \<Rightarrow> string" where
  "XMLBIFWriter_str lib w = tostring lib (str_tree w) (encoding w)"

section \<open>Concrete models and documents\<close>

text \<open>
  A model with one variable \<open>a\<close> of two states, no parents and no properties, in a
  network named \<open>n\<close>.
\<close>

definition model_a :: model_data where
  "model_a = \<lparr>network_name = Some ''n'', model_data.variables = Some [''a''],
               states = Some [(''a'', [''t'', ''f''])],
               parents = Some [(''a'', [])],
               property = Some [(''a'', [])]\<rparr>"

text \<open>
  Documents for the reader. \<open>leaf t s\<close> is \<open><t>s</t>\<close>, \<open>node t cs\<close> is an element with
  the children \<open>cs\<close> and no text. \<open>etree_of files texts\<close> is a library that parses the
  listed file names and the listed texts to the trees given with them, and fails on
  anything else; as lxml does, it takes as the text of an element the strings without
  control characters other than tab, line feed and carriage return (\<open>xml_compatible\<close>).
\<close>

definition xml_compatible :: "string \<Rightarrow> bool" where
  "xml_compatible s =
     list_all (\<lambda>c. let n = (of_char c :: nat) in n = 9 \<or> n = 10 \<or> n = 13 \<or> 32 \<le> n) s"

definition leaf :: "string \<Rightarrow> string \<Rightarrow> element" where
  "leaf t s = Element t [] (Some s) None []"

definition node :: "string \<Rightarrow> element list \<Rightarrow> element" where
  "node t cs = Element t [] None None cs"

definition etree_of :: "(string \<times> element) list \<Rightarrow> (string \<times> element) list \<Rightarrow> etree" where
  "etree_of files texts =
     \<lparr>parse_file = (\<lambda>p. case map_of files p of None \<Rightarrow> Inl IOError | Some e \<Rightarrow> Inr e),
      fromstring = (\<lambda>s. case map_of texts s of None \<Rightarrow> Inl ParseError | Some e \<Rightarrow> Inr e),
      tostring = (\<lambda>e enc. []),
      valid_text = xml_compatible\<rparr>"

text \<open>A variable \<open>c\<close> whose DEFINITION lists the parents \<open>p1\<close>, \<open>p2\<close> in this order.\<close>

definition definition_c :: element where
  "definition_c = node ''DEFINITION'' [leaf ''FOR'' ''c'', leaf ''GIVEN'' ''p1'', leaf ''GIVEN'' ''p2'']"

definition doc_c :: element where
  "doc_c = node ''BIF'' [node ''NETWORK''
     [leaf ''NAME'' ''n'',
      node ''VARIABLE'' [leaf ''NAME'' ''p1'', leaf ''OUTCOME'' ''t''],
      node ''VARIABLE'' [leaf ''NAME'' ''p2'', leaf ''OUTCOME'' ''t''],
      node ''VARIABLE'' [leaf ''NAME'' ''c'', leaf ''OUTCOME'' ''t''],
      node ''DEFINITION'' [leaf ''FOR'' ''p1''],
      definition_c]]"

text \<open>The same DEFINITION followed by a second DEFINITION for \<open>c\<close>, without parents.\<close>

definition doc_c_twice :: element where
  "doc_c_twice = node ''BIF'' [node ''NETWORK''
     [leaf ''NAME'' ''n'', definition_c, node ''DEFINITION'' [leaf ''FOR'' ''c'']]]"

text \<open>A variable \<open>a\<close> with a VARIABLE element and no DEFINITION element.\<close>

definition doc_a :: element where
  "doc_a = node ''BIF'' [node ''NETWORK''
     [leaf ''NAME'' ''n'', node ''VARIABLE'' [leaf ''NAME'' ''a'', leaf ''OUTCOME'' ''t'']]]"


text \<open>
  \<open>read_file doc\<close> is the reader constructed from a file \<open>net.xml\<close> that holds the
  document \<open>doc\<close>, with a \<open>float\<close> that accepts every token and keeps it as it is
  written; it is used on documents where the construction succeeds.
\<close>

definition lib_file :: "element \<Rightarrow> etree" where
  "lib_file doc = etree_of [(''net.xml'', doc)] []"

text \<open>
  A library for which the file \<open>net.xml\<close> holds the document \<open>doc_a\<close> and the string
  \<open><BIF>c</BIF>\<close> stands for the document \<open>doc_c\<close>.
\<close>

definition lib_file_string :: etree where
  "lib_file_string = etree_of [(''net.xml'', doc_a)] [(''<BIF>c</BIF>'', doc_c)]"

definition read_file :: "element \<Rightarrow> error + string XMLBIFReader" where
  "read_file doc = XMLBIFReader_init (lib_file doc) Some (Some ''net.xml'') None"

definition reader_c :: "string XMLBIFReader" where
  "reader_c = projr (read_file doc_c)"

definition reader_a :: "string XMLBIFReader" where
  "reader_a = projr (read_file doc_a)"


text \<open>The model \<open>model_a\<close> without the key \<open>'property'\<close>.\<close>

definition model_no_property :: model_data where
  "model_no_property = \<lparr>network_name = Some ''n'', model_data.variables = Some [''a''],
               states = Some [(''a'', [''t'', ''f''])],
               parents = Some [(''a'', [])],
               property = None\<rparr>"


text \<open>
  The model \<open>model_no_property\<close> with the control character of code 1 in its first
  state.
\<close>

definition model_control :: model_data where
  "model_control = \<lparr>network_name = Some ''n'', model_data.variables = Some [''a''],
               states = Some [(''a'', [[CHR ''t'', CHR 0x01], ''f''])],
               parents = Some [(''a'', [])],
               property = None\<rparr>"

text \<open>
  A model whose variables are listed as \<open>b\<close>, \<open>a\<close>, \<open>c\<close>, with the parents of \<open>b\<close> listed
  as \<open>c\<close>, \<open>a\<close>; and the same model without a network name.
\<close>

definition model_bac :: model_data where
  "model_bac = \<lparr>network_name = Some ''n'', model_data.variables = Some [''b'', ''a'', ''c''],
                 states = Some [(''b'', [''t'', ''f'']), (''c'', [''y'']), (''a'', [''x''])],
                 parents = Some [(''b'', [''c'', ''a'']), (''a'', []), (''c'', [])],
                 property = Some [(''a'', [''p''])]\<rparr>"

definition model_unnamed :: model_data where
  "model_unnamed = \<lparr>network_name = None, model_data.variables = Some [''b'', ''a'', ''c''],
                 states = Some [(''b'', [''t'', ''f'']), (''c'', [''y'']), (''a'', [''x''])],
                 parents = Some [(''b'', [''c'', ''a'']), (''a'', []), (''c'', [])],
                 property = Some [(''a'', [''p''])]\<rparr>"

text \<open>A document whose NETWORK element has no NAME child.\<close>

definition doc_unnamed :: element where
  "doc_unnamed = node ''BIF'' [node ''NETWORK''
     [node ''VARIABLE'' [leaf ''NAME'' ''a'', leaf ''OUTCOME'' ''t'']]]"


text \<open>
  Documents with conditional probability tables. In the examples \<open>float_text\<close> stands
  for \<open>float\<close>: it accepts the tokens made of digits, dots and minus signs, and keeps
  the token as the value. \<open>doc_light\<close> is the two-variable network of the specification,
  \<open>net_tables outcomes tables\<close> a network of one variable \<open>a\<close> with the given states
  and one DEFINITION element for \<open>a\<close> per given table, \<open>doc_tables outcomes tables\<close> the
  document around it.
\<close>

definition float_text :: "string \<Rightarrow> string option" where
  "float_text s = (if s \<noteq> [] \<and> list_all (\<lambda>c. c \<in> set ''0123456789.-'') s then Some s else None)"

definition net_light :: element where
  "net_light = node ''NETWORK''
     [leaf ''NAME'' ''Dog-Problem'',
      node ''VARIABLE'' [leaf ''NAME'' ''family-out'', leaf ''OUTCOME'' ''true'', leaf ''OUTCOME'' ''false''],
      node ''VARIABLE'' [leaf ''NAME'' ''light-on'', leaf ''OUTCOME'' ''true'', leaf ''OUTCOME'' ''false''],
      node ''DEFINITION'' [leaf ''FOR'' ''family-out'', leaf ''TABLE'' ''0.15 0.85''],
      node ''DEFINITION'' [leaf ''FOR'' ''light-on'', leaf ''GIVEN'' ''family-out'',
                           leaf ''TABLE'' ''0.6 0.4 0.05 0.95'']]"

definition doc_light :: element where
  "doc_light = node ''BIF'' [net_light]"

definition net_tables :: "string list \<Rightarrow> string list \<Rightarrow> element" where
  "net_tables outcomes tables =
     node ''NETWORK''
       ([leaf ''NAME'' ''n'',
         node ''VARIABLE'' (leaf ''NAME'' ''a'' # map (leaf ''OUTCOME'') outcomes)]
        @ map (\<lambda>table. node ''DEFINITION'' [leaf ''FOR'' ''a'', leaf ''TABLE'' table]) tables)"

definition doc_tables :: "string list \<Rightarrow> string list \<Rightarrow> element" where
  "doc_tables outcomes tables = node ''BIF'' [net_tables outcomes tables]"


subsection \<open>What the writer is specified to build\<close>

text \<open>
  The specification's description of the writer's output, to compare with what the
  constructor builds: a VARIABLE element with the attribute \<open>TYPE="nature"\<close>, one OUTCOME
  child per state and one PROPERTY child per property string, in the order of the
  lists; a DEFINITION element with a FOR child and one GIVEN child per parent, the
  parents sorted. \<open>entry d v\<close> is the list \<open>d[v]\<close>, empty when \<open>v\<close> is not a key, and
  \<open>texts_for d v\<close> are the strings that a loop over the items of \<open>d\<close> meets under the
  key \<open>v\<close>: the same list, since the keys of a dictionary are distinct.
  \<open>append_children e cs\<close> is \<open>e\<close> with the further children \<open>cs\<close>.
\<close>

definition append_children :: "element \<Rightarrow> element list \<Rightarrow> element" where
  "append_children e cs = Element (tag e) (attrib e) (etext e) (tail e) (children e @ cs)"

definition entry :: "(string, string list) dict \<Rightarrow> string \<Rightarrow> string list" where
  "entry d v = (case getitem d v of None \<Rightarrow> [] | Some ss \<Rightarrow> ss)"

definition texts_for :: "(string, string list) dict \<Rightarrow> string \<Rightarrow> string list" where
  "texts_for d v = concat (map snd (filter (\<lambda>p. fst p = v) d))"

definition spec_variable ::
  "(string, string list) dict \<Rightarrow> (string, string list) dict \<Rightarrow> string \<Rightarrow> element" where
  "spec_variable st pr v =
     Element ''VARIABLE'' [(''TYPE'', ''nature'')] None None
       (map (leaf ''OUTCOME'') (texts_for st v) @ map (leaf ''PROPERTY'') (texts_for pr v))"

definition spec_definition :: "(string, string list) dict \<Rightarrow> string \<Rightarrow> element" where
  "spec_definition pa v =
     Element ''DEFINITION'' [] None None
       (leaf ''FOR'' v # map (leaf ''GIVEN'') (sort (entry pa v)))"


section \<open>Properties\<close>

subsection \<open>Exceptions, comprehensions and dictionaries\<close>

lemma ebind_Inr_iff: "ebind m f = Inr y \<longleftrightarrow> (\<exists>x. m = Inr x \<and> f x = Inr y)"
  by (cases m) (simp_all add: ebind_def)

lemma ebind_Inl_iff: "ebind m f = Inl e \<longleftrightarrow> m = Inl e \<or> (\<exists>x. m = Inr x \<and> f x = Inl e)"
  by (cases m) (simp_all add: ebind_def)

lemma emap_Inr_iff: "emap f xs = Inr ys \<longleftrightarrow> map f xs = map Inr ys"
proof (induction xs arbitrary: ys)
  case Nil
  then show ?case by auto
next
  case (Cons x xs)
  show ?case
  proof (cases "f x")
    case (Inl e)
    then show ?thesis by (cases ys) auto
  next
    case (Inr y)
    show ?thesis
    proof (cases "emap f xs")
      case (Inl e)
      with Cons.IH Inr show ?thesis by (cases ys) auto
    next
      case r: (Inr zs)
      with Cons.IH[of zs] Cons.IH Inr show ?thesis by (cases ys) auto
    qed
  qed
qed

lemma emap_Inl_D: "emap f xs = Inl e \<Longrightarrow> \<exists>x \<in> set xs. f x = Inl e"
  by (induction xs) (auto split: sum.splits)

lemma emap_total: "(\<And>x. x \<in> set xs \<Longrightarrow> \<exists>y. f x = Inr y) \<Longrightarrow> \<exists>ys. emap f xs = Inr ys"
proof (induction xs)
  case Nil
  then show ?case by simp
next
  case (Cons x xs)
  then obtain y where "f x = Inr y" by force
  moreover from Cons obtain ys where "emap f xs = Inr ys" by force
  ultimately show ?case by simp
qed

lemma emap_first_error:
  "(\<And>y. y \<in> set pre \<Longrightarrow> \<exists>z. f y = Inr z) \<Longrightarrow> f x = Inl e \<Longrightarrow> emap f (pre @ x # post) = Inl e"
proof (induction pre)
  case Nil
  then show ?case by simp
next
  case (Cons p pre)
  then obtain z where "f p = Inr z" by force
  moreover from Cons have "emap f (pre @ x # post) = Inl e" by simp
  ultimately show ?case by simp
qed

lemma emap_fails: "x \<in> set xs \<Longrightarrow> f x = Inl e \<Longrightarrow> \<exists>e'. emap f xs = Inl e'"
  by (induction xs) (auto split: sum.splits)

lemma map_of_setitem: "map_of (setitem k v d) = (map_of d)(k \<mapsto> v)"
  by (induction d) auto

lemma keys_setitem: "set (keys (setitem k v d)) = insert k (set (keys d))"
  by (induction d) (auto simp: keys_def)

lemma distinct_setitem: "distinct (keys d) \<Longrightarrow> distinct (keys (setitem k v d))"
proof (induction d)
  case Nil
  then show ?case by (simp add: keys_def)
next
  case (Cons p d)
  then show ?case using keys_setitem[of k v d] by (auto simp: keys_def)
qed

lemma foldl_setitem_map_of:
  "map_of (foldl (\<lambda>d (k, v). setitem k v d) d0 items) = map_of d0 ++ map_of (rev items)"
proof (induction items arbitrary: d0)
  case Nil
  then show ?case by simp
next
  case (Cons p items)
  obtain k v where p: "p = (k, v)" by (cases p)
  show ?case
    by (rule ext) (simp add: Cons.IH p map_of_setitem map_of_append map_add_def split: option.splits)
qed

lemma foldl_setitem_keys:
  "set (keys (foldl (\<lambda>d (k, v). setitem k v d) d0 items)) = set (keys d0) \<union> fst ` set items"
  by (induction items arbitrary: d0) (auto simp: keys_setitem split: prod.splits)

lemma foldl_setitem_distinct:
  "distinct (keys d0) \<Longrightarrow> distinct (keys (foldl (\<lambda>d (k, v). setitem k v d) d0 items))"
  by (induction items arbitrary: d0) (auto simp: distinct_setitem split: prod.splits)

lemma getitem_dict_of: "getitem (dict_of items) k = map_of (rev items) k"
  by (simp add: getitem_def dict_of_def foldl_setitem_map_of)

lemma keys_dict_of: "set (keys (dict_of items)) = fst ` set items"
  using foldl_setitem_keys[of "[]" items] by (simp add: dict_of_def keys_def)

lemma distinct_dict_of: "distinct (keys (dict_of items))"
  using foldl_setitem_distinct[of "[]" items] by (simp add: dict_of_def keys_def)

lemma map_of_rev_last:
  "k \<notin> fst ` set ys2 \<Longrightarrow> map_of (rev (ys1 @ (k, v) # ys2)) k = Some v"
proof -
  assume "k \<notin> fst ` set ys2"
  then have "map_of (rev ys2) k = None" by (simp add: map_of_eq_None_iff)
  then show ?thesis by (simp add: map_add_def)
qed

subsection \<open>The reader's fields\<close>

lemma init_fields_Inr:
  assumes "init_fields float (Some net) = Inr r"
  shows "find_text ''NAME'' net = Inr (XMLBIFReader.network_name r)"
    and "get_variables net = Inr (XMLBIFReader.variables r)"
    and "get_parents net = Inr (variable_parents r)"
    and "edge_list r = get_edges (variable_parents r)"
    and "get_states net = Inr (variable_states r)"
    and "get_cpd float net (variable_states r) = Inr (variable_CPD r)"
    and "get_property net = Inr (variable_property r)"
  using assms by (auto simp: init_fields_def ebind_Inr_iff)

lemma map_append_Cons_Inr:
  assumes "map f (xs1 @ x # xs2) = map Inr items"
  shows "\<exists>i1 it i2. items = i1 @ it # i2 \<and> map f xs1 = map Inr i1 \<and> f x = Inr it
           \<and> map f xs2 = map Inr i2"
proof -
  from assms have "map f xs1 @ f x # map f xs2 = map Inr items" by simp
  then obtain i1 r where i: "items = i1 @ r" "map f xs1 = map Inr i1" "f x # map f xs2 = map Inr r"
    by (metis append_eq_map_conv)
  from i(3) obtain it i2 where "r = it # i2" "f x = Inr it" "map f xs2 = map Inr i2"
    by (metis Cons_eq_map_conv)
  with i show ?thesis by blast
qed

lemma map_Inr_mem:
  assumes "map f xs = map Inr items" and "it \<in> set items"
  shows "\<exists>x \<in> set xs. f x = Inr it"
proof -
  from assms(2) have "Inr it \<in> set (map Inr items)" by simp
  with assms(1) have "Inr it \<in> set (map f xs)" by simp
  then show ?thesis by auto
qed

lemma map_Inr_mem2:
  assumes "map f xs = map Inr items" and "x \<in> set xs"
  shows "\<exists>it \<in> set items. f x = Inr it"
proof -
  from assms(2) have "f x \<in> set (map f xs)" by simp
  with assms(1) have "f x \<in> set (map Inr items)" by simp
  then show ?thesis by auto
qed

lemma parents_item_Inr:
  "ebind (find_text ''FOR'' d) (\<lambda>name. Inr (name, rev (map etext (findall ''GIVEN'' d)))) = Inr it
     \<longleftrightarrow> find_text ''FOR'' d = Inr (fst it) \<and> snd it = rev (map etext (findall ''GIVEN'' d))"
  by (cases it) (auto simp: ebind_Inr_iff)

lemma get_parents_last:
  assumes "get_parents net = Inr ps"
    and "findall ''DEFINITION'' net = ds1 @ d # ds2"
    and "find_text ''FOR'' d = Inr c"
    and "\<forall>d' \<in> set ds2. find_text ''FOR'' d' \<noteq> Inr c"
  shows "getitem ps c = Some (rev (map etext (findall ''GIVEN'' d)))"
proof -
  let ?f = "\<lambda>d. ebind (find_text ''FOR'' d) (\<lambda>name. Inr (name, rev (map etext (findall ''GIVEN'' d))))"
  from assms(1) obtain items where items: "map ?f (findall ''DEFINITION'' net) = map Inr items"
    and ps: "ps = dict_of items"
    by (auto simp: get_parents_def ebind_Inr_iff emap_Inr_iff)
  from items assms(2) obtain i1 it i2 where sp: "items = i1 @ it # i2" "?f d = Inr it"
    "map ?f ds2 = map Inr i2"
    using map_append_Cons_Inr[of ?f ds1 d ds2 items] by auto
  from sp(2) assms(3) have it: "it = (c, rev (map etext (findall ''GIVEN'' d)))"
    by (cases it) (auto simp: ebind_Inr_iff)
  have "c \<notin> fst ` set i2"
  proof
    assume "c \<in> fst ` set i2"
    then obtain v where "(c, v) \<in> set i2" by auto
    then obtain d' where "d' \<in> set ds2" "?f d' = Inr (c, v)"
      using map_Inr_mem[OF sp(3)] by blast
    then have "find_text ''FOR'' d' = Inr c" by (auto simp: ebind_Inr_iff)
    with assms(4) \<open>d' \<in> set ds2\<close> show False by blast
  qed
  then show ?thesis
    unfolding ps sp(1) it getitem_dict_of by (rule map_of_rev_last)
qed

lemma get_parents_keys:
  assumes "get_parents net = Inr ps"
  shows "set (keys ps) = {c. \<exists>d \<in> set (findall ''DEFINITION'' net). find_text ''FOR'' d = Inr c}"
proof -
  let ?f = "\<lambda>d. ebind (find_text ''FOR'' d) (\<lambda>name. Inr (name, rev (map etext (findall ''GIVEN'' d))))"
  from assms(1) obtain items where items: "map ?f (findall ''DEFINITION'' net) = map Inr items"
    and ps: "ps = dict_of items"
    by (auto simp: get_parents_def ebind_Inr_iff emap_Inr_iff)
  show ?thesis
  proof (intro set_eqI iffI)
    fix c assume "c \<in> set (keys ps)"
    then obtain v where "(c, v) \<in> set items" by (auto simp: ps keys_dict_of)
    then obtain d where "d \<in> set (findall ''DEFINITION'' net)" "?f d = Inr (c, v)"
      using map_Inr_mem[OF items] by blast
    then show "c \<in> {c. \<exists>d \<in> set (findall ''DEFINITION'' net). find_text ''FOR'' d = Inr c}"
      by (auto simp: ebind_Inr_iff)
  next
    fix c assume "c \<in> {c. \<exists>d \<in> set (findall ''DEFINITION'' net). find_text ''FOR'' d = Inr c}"
    then obtain d where d: "d \<in> set (findall ''DEFINITION'' net)" "find_text ''FOR'' d = Inr c" by auto
    obtain it where "it \<in> set items" "?f d = Inr it"
      using map_Inr_mem2[OF items d(1)] by blast
    with d(2) have "c \<in> fst ` set items" by (force simp: ebind_Inr_iff)
    then show "c \<in> set (keys ps)" by (simp add: ps keys_dict_of)
  qed
qed

lemma get_parents_distinct: "get_parents net = Inr ps \<Longrightarrow> distinct (keys ps)"
  by (auto simp: get_parents_def ebind_Inr_iff distinct_dict_of)

lemma get_edges_append: "get_edges (a @ b) = get_edges a @ get_edges b"
  by (simp add: get_edges_def)

lemma get_edges_last: "e \<in> set (get_edges a) \<Longrightarrow> last e \<in> fst ` set a"
  by (force simp: get_edges_def)

lemma get_edges_block:
  assumes "distinct (keys ps)" and "getitem ps c = Some vs"
  shows "\<exists>pre post. get_edges ps = pre @ map (\<lambda>p. [p, c]) vs @ post
           \<and> (\<forall>e \<in> set pre \<union> set post. last e \<noteq> c)"
proof -
  from assms(2) have "(c, vs) \<in> set ps" by (simp add: getitem_def map_of_SomeD)
  then obtain a b where ps: "ps = a @ (c, vs) # b" by (meson split_list)
  with assms(1) have nc: "c \<notin> fst ` set a" "c \<notin> fst ` set b" by (auto simp: keys_def)
  have "get_edges ps = get_edges a @ map (\<lambda>p. [p, c]) vs @ get_edges b"
    by (simp add: ps get_edges_def)
  moreover have "\<forall>e \<in> set (get_edges a) \<union> set (get_edges b). last e \<noteq> c"
    using nc get_edges_last by blast
  ultimately show ?thesis by blast
qed

subsection \<open>What the writer emits for a variable\<close>

text \<open>
  C2. The claim: the writer's output follows the XMLBIF schema of the specification, in
  particular every VARIABLE element it writes has a NAME child holding the variable's
  name. The writer does not do that: \<open>add_variables\<close> creates each VARIABLE element with
  its TYPE attribute and gives it OUTCOME and PROPERTY children only, where
  \<open>add_definition\<close> does give each DEFINITION its FOR child. For the model \<open>model_a\<close> the
  tree built by the constructor is the one below: its VARIABLE element has the two
  OUTCOME children and no NAME child.
\<close>

theorem writer_variable_has_no_name:
  "map_sum id xml (XMLBIFWriter_init (etree_of [] []) model_a ''utf-8'' True) =
     Inr (Element ''BIF'' [(''version'', ''0.3'')] None None
           [Element ''NETWORK'' [] None None
             [Element ''NAME'' [] (Some ''n'') None [],
              Element ''VARIABLE'' [(''TYPE'', ''nature'')] None None
                [Element ''OUTCOME'' [] (Some ''t'') None [],
                 Element ''OUTCOME'' [] (Some ''f'') None []],
              Element ''DEFINITION'' [] None None
                [Element ''FOR'' [] (Some ''a'') None []]]])"
  by code_simp

subsection \<open>Writing, then reading\<close>

text \<open>
  C1. The claim: writing a model and reading the result back gives the model's
  variables (as a set) and its states (per variable, in order). It fails on the code:
  the reader takes every variable's name from the NAME child of its VARIABLE element
  (\<open>variable.find('NAME').text\<close>), and the writer writes no such child, so the reader
  raises AttributeError on the writer's output as soon as the model has a variable.
  Here the reader's constructor, from \<open>self.network\<close> on, runs on the tree that
  \<open>__str__\<close> serialises for \<open>model_a\<close> (with and without pretty-printing), that is, on
  what a parser that inverts the serialiser gives back.
\<close>

theorem write_then_read_fails:
  "ebind (XMLBIFWriter_init (etree_of [] []) model_a ''utf-8'' True)
     (\<lambda>w. init_fields (float :: string \<Rightarrow> 'f::equal option) (find_elem ''NETWORK'' (str_tree w)))
     = Inl AttributeError \<and>
   ebind (XMLBIFWriter_init (etree_of [] []) model_a ''utf-8'' False)
     (\<lambda>w. init_fields (float :: string \<Rightarrow> 'f::equal option) (find_elem ''NETWORK'' (str_tree w)))
     = Inl AttributeError"
  by code_simp

lemma XMLBIFReader_init_Inr:
  assumes "XMLBIFReader_init lib float path string = Inr r"
  shows "init_fields float (Some (XMLBIFReader.network r)) = Inr r"
proof -
  from assms obtain root where "init_fields float (find_elem ''NETWORK'' root) = Inr r"
    by (auto simp: XMLBIFReader_init_def ebind_Inr_iff split: option.splits)
  moreover then obtain net where "find_elem ''NETWORK'' root = Some net"
    by (cases "find_elem ''NETWORK'' root") (auto simp: init_fields_def)
  moreover from calculation have "XMLBIFReader.network r = net"
    by (auto simp: init_fields_def ebind_Inr_iff)
  ultimately show ?thesis by simp
qed

subsection \<open>Parents and edges\<close>

text \<open>
  C4 (amended). Let a reader be constructed, and let a DEFINITION element of its
  network have the FOR text \<open>c\<close> and GIVEN children with the texts \<open>gs\<close> in document
  order, no later DEFINITION element of the network having the FOR text \<open>c\<close>. Then
  \<open>variable_parents\<close> maps \<open>c\<close> to \<open>gs\<close> reversed, and \<open>edge_list\<close> holds the pairs
  \<open>[p, c]\<close> for \<open>p\<close> in reversed \<open>gs\<close>, in this order and next to each other, and no
  other pair with the child \<open>c\<close>. For \<open>gs = [p1, p2]\<close>: \<open>c\<close> is mapped to \<open>[p2, p1]\<close>
  and \<open>[p2, c]\<close> stands before \<open>[p1, c]\<close>.
\<close>

theorem parents_reversed:
  assumes "XMLBIFReader_init lib float path string = Inr r"
    and "findall ''DEFINITION'' (XMLBIFReader.network r) = ds1 @ d # ds2"
    and "find_text ''FOR'' d = Inr c"
    and "map etext (findall ''GIVEN'' d) = gs"
    and "\<forall>d' \<in> set ds2. find_text ''FOR'' d' \<noteq> Inr c"
  shows "getitem (variable_parents r) c = Some (rev gs) \<and>
         (\<exists>pre post. edge_list r = pre @ map (\<lambda>p. [p, c]) (rev gs) @ post
            \<and> (\<forall>e \<in> set pre \<union> set post. last e \<noteq> c))"
proof -
  note f = init_fields_Inr[OF XMLBIFReader_init_Inr[OF assms(1)]]
  have g: "getitem (variable_parents r) c = Some (rev gs)"
    using get_parents_last[OF f(3) assms(2,3,5)] assms(4) by simp
  from get_edges_block[OF get_parents_distinct[OF f(3)] g] f(4) g show ?thesis by simp
qed

theorem parents_reversed_witness:
  "read_file doc_c = Inr reader_c \<and>
   map etext (findall ''GIVEN'' definition_c) = [Some ''p1'', Some ''p2''] \<and>
   getitem (variable_parents reader_c) (Some ''c'') = Some [Some ''p2'', Some ''p1''] \<and>
   (\<exists>pre post. edge_list reader_c = pre @ [[Some ''p2'', Some ''c''], [Some ''p1'', Some ''c'']] @ post)"
proof -
  have h1: "XMLBIFReader_init (lib_file doc_c) Some (Some ''net.xml'') None = Inr reader_c"
    unfolding reader_c_def read_file_def by code_simp
  have h2: "findall ''DEFINITION'' (XMLBIFReader.network reader_c)
              = [node ''DEFINITION'' [leaf ''FOR'' ''p1'']] @ definition_c # []"
    unfolding reader_c_def read_file_def by code_simp
  have h3: "find_text ''FOR'' definition_c = Inr (Some ''c'')" by code_simp
  have h4: "map etext (findall ''GIVEN'' definition_c) = [Some ''p1'', Some ''p2'']" by code_simp
  have h5: "\<forall>d' \<in> set []. find_text ''FOR'' d' \<noteq> Inr (Some ''c'')" by simp
  from parents_reversed[OF h1 h2 h3 h4 h5] h1 h4 show ?thesis
    by (auto simp: read_file_def)
qed

text \<open>
  As the claim is written, for every DEFINITION element, it fails when a later
  DEFINITION element names the same variable: the dictionary keeps the later value.
\<close>

theorem parents_reversed_counterexample:
  "findall ''DEFINITION'' (node ''NETWORK'' [leaf ''NAME'' ''n'', definition_c, node ''DEFINITION'' [leaf ''FOR'' ''c'']])
     = [definition_c, node ''DEFINITION'' [leaf ''FOR'' ''c'']] \<and>
   find_text ''FOR'' definition_c = Inr (Some ''c'') \<and>
   map etext (findall ''GIVEN'' definition_c) = [Some ''p1'', Some ''p2''] \<and>
   map_sum id variable_parents (read_file doc_c_twice) = Inr [(Some ''c'', [])] \<and>
   map_sum id edge_list (read_file doc_c_twice) = Inr []"
  by code_simp

subsection \<open>Variables without a DEFINITION\<close>

text \<open>
  C7 (amended). In a constructed reader, \<open>variable_parents\<close> has an entry for a name
  exactly when some DEFINITION element of the network has this name as its FOR text. A
  variable that has a VARIABLE element and no DEFINITION element has no entry: looking
  it up is a missing key, not an empty list.
\<close>

theorem parents_entry_iff_definition:
  assumes "XMLBIFReader_init lib float path string = Inr r"
  shows "getitem (variable_parents r) v = None \<longleftrightarrow>
         (\<forall>d \<in> set (findall ''DEFINITION'' (XMLBIFReader.network r)). find_text ''FOR'' d \<noteq> Inr v)"
proof -
  note f = init_fields_Inr[OF XMLBIFReader_init_Inr[OF assms(1)]]
  have "getitem (variable_parents r) v = None \<longleftrightarrow> v \<notin> set (keys (variable_parents r))"
    by (simp add: getitem_def keys_def map_of_eq_None_iff)
  then show ?thesis unfolding get_parents_keys[OF f(3)] by blast
qed

theorem parents_entry_iff_definition_witness:
  "read_file doc_a = Inr reader_a \<and> XMLBIFReader.variables reader_a = [Some ''a''] \<and>
   findall ''DEFINITION'' (XMLBIFReader.network reader_a) = [] \<and>
   getitem (variable_parents reader_a) (Some ''a'') = None"
proof -
  have h1: "XMLBIFReader_init (lib_file doc_a) Some (Some ''net.xml'') None = Inr reader_a"
    unfolding reader_a_def read_file_def by code_simp
  have h2: "findall ''DEFINITION'' (XMLBIFReader.network reader_a) = []"
    unfolding reader_a_def read_file_def by code_simp
  have h3: "XMLBIFReader.variables reader_a = [Some ''a'']"
    unfolding reader_a_def read_file_def by code_simp
  from parents_entry_iff_definition[OF h1, of "Some ''a''"] h1 h2 h3 show ?thesis
    by (simp add: read_file_def)
qed

theorem no_definition_counterexample:
  "map_sum id XMLBIFReader.variables (read_file doc_a) = Inr [Some ''a''] \<and>
   map_sum id variable_parents (read_file doc_a) = Inr [] \<and>
   map_sum id (\<lambda>r. getitem (variable_parents r) (Some ''a'')) (read_file doc_a) = Inr None"
  by code_simp

subsection \<open>Which exceptions the reader raises\<close>

lemma find_text_Inl: "find_text t x = Inl e \<Longrightarrow> e = AttributeError"
  by (auto simp: find_text_def split: option.splits)

lemma named_items_Inl:
  "emap (\<lambda>x. ebind (find_text t x) (\<lambda>name. Inr (name, g x))) xs = Inl e \<Longrightarrow> e = AttributeError"
  by (auto dest!: emap_Inl_D simp: ebind_Inl_iff dest: find_text_Inl)

lemma get_variables_Inl: "get_variables net = Inl e \<Longrightarrow> e = AttributeError"
  by (auto simp: get_variables_def dest!: emap_Inl_D dest: find_text_Inl)

lemma get_states_Inl: "get_states net = Inl e \<Longrightarrow> e = AttributeError"
  by (auto simp: get_states_def ebind_Inl_iff dest: named_items_Inl)

lemma get_parents_Inl: "get_parents net = Inl e \<Longrightarrow> e = AttributeError"
  by (auto simp: get_parents_def ebind_Inl_iff dest: named_items_Inl)

lemma get_property_Inl: "get_property net = Inl e \<Longrightarrow> e = AttributeError"
  by (auto simp: get_property_def ebind_Inl_iff dest: named_items_Inl)

lemma table_values_Inl:
  "table_values float t = Inl e \<Longrightarrow>
     e = AttributeError \<or> e = ValueError ''could not convert string to float''"
  by (auto simp: table_values_def split: option.splits dest!: emap_Inl_D)

lemma cpd_lists_Inl:
  "cpd_lists float net = Inl e \<Longrightarrow>
     e = AttributeError \<or> e = ValueError ''could not convert string to float''"
  by (auto simp: cpd_lists_def cpd_item_def ebind_Inl_iff
           dest!: emap_Inl_D dest: find_text_Inl table_values_Inl)

lemma cpd_array_Inl:
  "cpd_array vstates item = Inl e \<Longrightarrow>
     (\<exists>k. e = KeyError k) \<or> e = ZeroDivisionError \<or> e = ValueError ''cannot reshape array''"
  by (auto simp: cpd_array_def reshape_def ebind_Inl_iff split: prod.splits option.splits if_splits)

lemma get_cpd_Inl:
  "get_cpd float net vstates = Inl e \<Longrightarrow>
     e = AttributeError \<or> e = ValueError ''could not convert string to float'' \<or>
     (\<exists>k. e = KeyError k) \<or> e = ZeroDivisionError \<or> e = ValueError ''cannot reshape array''"
  unfolding get_cpd_def ebind_Inl_iff
  using cpd_lists_Inl cpd_array_Inl by (fastforce dest!: emap_Inl_D)

lemma init_fields_Inl:
  assumes "init_fields float n = Inl e"
  shows "e = AttributeError \<or> e = ValueError ''could not convert string to float'' \<or>
     (\<exists>k. e = KeyError k) \<or> e = ZeroDivisionError \<or> e = ValueError ''cannot reshape array''"
proof (cases n)
  case None
  with assms show ?thesis by (simp add: init_fields_def)
next
  case (Some net)
  with assms consider "find_text ''NAME'' net = Inl e" | "get_variables net = Inl e"
    | "get_parents net = Inl e" | "get_states net = Inl e"
    | sts where "get_cpd float net sts = Inl e" | "get_property net = Inl e"
    by (auto simp: init_fields_def ebind_Inl_iff)
  then show ?thesis
    using find_text_Inl get_variables_Inl get_parents_Inl get_states_Inl get_property_Inl
      get_cpd_Inl by cases blast+
qed

subsection \<open>The arguments of the reader's constructor\<close>

text \<open>
  C3 (amended). An argument counts as given when it is neither \<open>None\<close> nor the empty
  string. For a parser that does not itself raise the constructor's ValueError, the
  constructor fails with the configuration error (\<open>ValueError("Must specify either path
  or string")\<close>) exactly when neither the path nor the string is given. When the path
  is given, the input is the file: the constructor fails as the parser fails on the
  file, and otherwise sets its fields from the NETWORK child of the root that the
  parser returns for the file; the string is not looked at, so with both given the
  constructor does what it does for the path alone, and raises no configuration error.
  When the path is not given and the string is, the input is the string: the
  constructor fails as the parser fails on the string, and otherwise sets its fields
  from the NETWORK child of the root that the parser returns for the string.
\<close>

theorem configuration_error_iff:
  assumes "\<forall>p. parse_file lib p \<noteq> Inl (ValueError ''Must specify either path or string'')"
    and "\<forall>s. fromstring lib s \<noteq> Inl (ValueError ''Must specify either path or string'')"
  shows "(XMLBIFReader_init lib float path string
            = Inl (ValueError ''Must specify either path or string'')
          \<longleftrightarrow> truthy path = None \<and> truthy string = None) \<and>
         (truthy path \<noteq> None \<longrightarrow>
            XMLBIFReader_init lib float path string = XMLBIFReader_init lib float path None) \<and>
         (\<forall>p. truthy path = Some p \<longrightarrow>
            (\<forall>e. parse_file lib p = Inl e \<longrightarrow> XMLBIFReader_init lib float path string = Inl e) \<and>
            (\<forall>root. parse_file lib p = Inr root \<longrightarrow>
               XMLBIFReader_init lib float path string
                 = init_fields float (find_elem ''NETWORK'' root))) \<and>
         (\<forall>s. truthy path = None \<and> truthy string = Some s \<longrightarrow>
            (\<forall>e. fromstring lib s = Inl e \<longrightarrow> XMLBIFReader_init lib float path string = Inl e) \<and>
            (\<forall>root. fromstring lib s = Inr root \<longrightarrow>
               XMLBIFReader_init lib float path string
                 = init_fields float (find_elem ''NETWORK'' root)))"
proof -
  let ?cfg = "ValueError ''Must specify either path or string''"
  have nf: "init_fields float n \<noteq> Inl ?cfg" for n
    using init_fields_Inl[of float n ?cfg] by auto
  have a: "ebind (parse_file lib p) (\<lambda>root. init_fields float (find_elem ''NETWORK'' root)) \<noteq> Inl ?cfg" for p
    using assms(1) nf by (auto simp: ebind_Inl_iff)
  have b: "ebind (fromstring lib s) (\<lambda>root. init_fields float (find_elem ''NETWORK'' root)) \<noteq> Inl ?cfg" for s
    using assms(2) nf by (auto simp: ebind_Inl_iff)
  have c1: "XMLBIFReader_init lib float path string = Inl ?cfg
              \<longleftrightarrow> truthy path = None \<and> truthy string = None"
    using a b by (auto simp: XMLBIFReader_init_def split: option.splits)
  have c2: "truthy path \<noteq> None \<longrightarrow>
              XMLBIFReader_init lib float path string = XMLBIFReader_init lib float path None"
    by (auto simp: XMLBIFReader_init_def split: option.splits)
  have c3: "\<forall>p. truthy path = Some p \<longrightarrow>
            (\<forall>e. parse_file lib p = Inl e \<longrightarrow> XMLBIFReader_init lib float path string = Inl e) \<and>
            (\<forall>root. parse_file lib p = Inr root \<longrightarrow>
               XMLBIFReader_init lib float path string
                 = init_fields float (find_elem ''NETWORK'' root))"
    by (simp add: XMLBIFReader_init_def ebind_def)
  have c4: "\<forall>s. truthy path = None \<and> truthy string = Some s \<longrightarrow>
            (\<forall>e. fromstring lib s = Inl e \<longrightarrow> XMLBIFReader_init lib float path string = Inl e) \<and>
            (\<forall>root. fromstring lib s = Inr root \<longrightarrow>
               XMLBIFReader_init lib float path string
                 = init_fields float (find_elem ''NETWORK'' root))"
    by (simp add: XMLBIFReader_init_def ebind_def)
  from c1 c2 c3 c4 show ?thesis by (intro conjI)
qed

text \<open>
  Here the library parses the file \<open>net.xml\<close> to the document \<open>doc_a\<close> and the string
  \<open><BIF>c</BIF>\<close> to the document \<open>doc_c\<close>, and nothing else: the reader made from the
  string alone has the variables of \<open>doc_c\<close>, the reader made from the path, with or
  without the string, has the variable of \<open>doc_a\<close>, and a string that does not parse
  makes the constructor fail as the parser does.
\<close>

theorem configuration_error_iff_witness:
  "XMLBIFReader_init lib_file_string Some None None
     = Inl (ValueError ''Must specify either path or string'') \<and>
   XMLBIFReader_init lib_file_string Some (Some []) (Some [])
     = Inl (ValueError ''Must specify either path or string'') \<and>
   XMLBIFReader_init lib_file_string Some (Some ''net.xml'') None
     \<noteq> Inl (ValueError ''Must specify either path or string'') \<and>
   XMLBIFReader_init lib_file_string Some (Some ''net.xml'') (Some ''<BIF>c</BIF>'')
     = XMLBIFReader_init lib_file_string Some (Some ''net.xml'') None \<and>
   map_sum id XMLBIFReader.variables
     (XMLBIFReader_init lib_file_string Some (Some ''net.xml'') (Some ''<BIF>c</BIF>''))
     = Inr [Some ''a''] \<and>
   map_sum id XMLBIFReader.variables
     (XMLBIFReader_init lib_file_string Some None (Some ''<BIF>c</BIF>''))
     = Inr [Some ''p1'', Some ''p2'', Some ''c''] \<and>
   map_sum id XMLBIFReader.variables
     (XMLBIFReader_init lib_file_string Some (Some []) (Some ''<BIF>c</BIF>''))
     = Inr [Some ''p1'', Some ''p2'', Some ''c''] \<and>
   XMLBIFReader_init lib_file_string Some None (Some ''<BIF/>'') = Inl ParseError"
proof -
  let ?cfg = "ValueError ''Must specify either path or string''"
  have h1: "\<forall>p. parse_file lib_file_string p \<noteq> Inl ?cfg"
    by (simp add: lib_file_string_def etree_of_def split: option.splits)
  have h2: "\<forall>s. fromstring lib_file_string s \<noteq> Inl ?cfg"
    by (simp add: lib_file_string_def etree_of_def split: option.splits)
  note t = configuration_error_iff[OF h1 h2, of Some]
  have p: "parse_file lib_file_string ''net.xml'' = Inr doc_a"
    and s: "fromstring lib_file_string ''<BIF>c</BIF>'' = Inr doc_c"
    and s': "fromstring lib_file_string ''<BIF/>'' = Inl ParseError"
    by (simp_all add: lib_file_string_def etree_of_def)
  have va: "map_sum id XMLBIFReader.variables
              (init_fields Some (find_elem ''NETWORK'' doc_a)) = Inr [Some ''a'']"
    and vc: "map_sum id XMLBIFReader.variables
              (init_fields Some (find_elem ''NETWORK'' doc_c))
               = Inr [Some ''p1'', Some ''p2'', Some ''c'']"
    by code_simp+
  have r1: "XMLBIFReader_init lib_file_string Some None None = Inl ?cfg"
    and r2: "XMLBIFReader_init lib_file_string Some (Some []) (Some []) = Inl ?cfg"
    and r3: "XMLBIFReader_init lib_file_string Some (Some ''net.xml'') None \<noteq> Inl ?cfg"
    and r4: "XMLBIFReader_init lib_file_string Some (Some ''net.xml'') (Some ''<BIF>c</BIF>'')
               = XMLBIFReader_init lib_file_string Some (Some ''net.xml'') None"
    using t[of None None] t[of "Some []" "Some []"] t[of "Some ''net.xml''" None]
      t[of "Some ''net.xml''" "Some ''<BIF>c</BIF>''"]
    by (simp_all add: truthy_def)
  have tp: "truthy (Some ''net.xml'') = Some ''net.xml''" "truthy None = None"
    "truthy (Some []) = None" "truthy (Some ''<BIF>c</BIF>'') = Some ''<BIF>c</BIF>''"
    "truthy (Some ''<BIF/>'') = Some ''<BIF/>''"
    by (simp_all add: truthy_def)
  note from_path = t[THEN conjunct2, THEN conjunct2, THEN conjunct1, rule_format]
  note from_string = t[THEN conjunct2, THEN conjunct2, THEN conjunct2, rule_format]
  have r5: "XMLBIFReader_init lib_file_string Some (Some ''net.xml'') (Some ''<BIF>c</BIF>'')
              = init_fields Some (find_elem ''NETWORK'' doc_a)"
    by (rule from_path[THEN conjunct2, rule_format, OF tp(1) p])
  have r6: "XMLBIFReader_init lib_file_string Some None (Some ''<BIF>c</BIF>'')
              = init_fields Some (find_elem ''NETWORK'' doc_c)"
    by (rule from_string[THEN conjunct2, rule_format, OF conjI[OF tp(2) tp(4)] s])
  have r7: "XMLBIFReader_init lib_file_string Some (Some []) (Some ''<BIF>c</BIF>'')
              = init_fields Some (find_elem ''NETWORK'' doc_c)"
    by (rule from_string[THEN conjunct2, rule_format, OF conjI[OF tp(3) tp(4)] s])
  have r8: "XMLBIFReader_init lib_file_string Some None (Some ''<BIF/>'') = Inl ParseError"
    by (rule from_string[THEN conjunct1, rule_format, OF conjI[OF tp(2) tp(5)] s'])
  from r1 r2 r3 r4 va vc show ?thesis unfolding r5 r6 r7 r8 by (intro conjI) simp_all
qed

text \<open>
  As the claim is written, the constructor would fail when both arguments are given. It
  reads the file instead: here the file \<open>net.xml\<close> holds the document \<open>doc_a\<close>, a string
  is given as well, and the reader is constructed with the variable of the file.
\<close>

theorem both_given_counterexample:
  "map_sum id XMLBIFReader.variables
     (XMLBIFReader_init (lib_file doc_a) Some (Some ''net.xml'') (Some ''<BIF/>''))
   = Inr [Some ''a'']"
  by code_simp

subsection \<open>Loops that may raise\<close>

lemma efold_Inr_induct:
  assumes "efold f xs s = Inr s'" and "P s"
    and "\<And>x a b. x \<in> set xs \<Longrightarrow> P a \<Longrightarrow> f x a = Inr b \<Longrightarrow> P b"
  shows "P s'"
  using assms
proof (induction xs arbitrary: s)
  case Nil
  then show ?case by simp
next
  case (Cons x xs)
  from Cons.prems(1) obtain s1 where s1: "f x s = Inr s1" "efold f xs s1 = Inr s'"
    by (auto split: sum.splits)
  have "P s1" using Cons.prems(2,3) s1(1) by auto
  then show ?case using Cons.IH[OF s1(2)] Cons.prems(3) by auto
qed

lemma efold_Inl_D: "efold f xs s = Inl e \<Longrightarrow> \<exists>x \<in> set xs. \<exists>a. f x a = Inl e"
  by (induction xs arbitrary: s) (auto split: sum.splits)

lemma efold_total:
  "(\<And>x a. x \<in> set xs \<Longrightarrow> \<exists>b. f x a = Inr b) \<Longrightarrow> \<exists>s'. efold f xs s = Inr s'"
proof (induction xs arbitrary: s)
  case Nil
  then show ?case by simp
next
  case (Cons x xs)
  then obtain b where "f x s = Inr b" by force
  moreover from Cons obtain s' where "efold f xs b = Inr s'" by force
  ultimately show ?case by simp
qed

lemma efold_pure: "efold (\<lambda>x a. Inr (g x a)) xs s = Inr (foldl (\<lambda>a x. g x a) s xs)"
  by (induction xs arbitrary: s) auto

subsection \<open>The writer's loops\<close>

lemma getitem_None_iff: "getitem d k = None \<longleftrightarrow> k \<notin> set (keys d)"
  by (simp add: getitem_def keys_def map_of_eq_None_iff)

lemma getitem_setitem: "getitem (setitem k v d) k' = (if k' = k then Some v else getitem d k')"
  by (simp add: getitem_def map_of_setitem)

text \<open>A loop that assigns one text per string: it stops at the first string that the
  library does not take.\<close>

lemma checked_loop:
  "efold (\<lambda>v n. ebind (text_value lib v) (\<lambda>txt. Inr (G txt n))) vals net
   = (if list_all (valid_text lib) vals then Inr (foldl (\<lambda>n v. G (Some v) n) net vals)
      else Inl (ValueError ''All strings must be XML compatible''))"
  by (induction vals arbitrary: net) (simp_all add: text_value_def ebind_def)

text \<open>The loop over the strings of one dictionary entry.\<close>

lemma texts_loop:
  "efold (\<lambda>v n. case getitem tg var of
                   None \<Rightarrow> Inl (KeyError (Some var))
                 | Some i \<Rightarrow> ebind (text_value lib v) (\<lambda>txt. Inr (at i (F txt) n))) vals net
   = (case getitem tg var of
        None \<Rightarrow> if vals = [] then Inr net else Inl (KeyError (Some var))
      | Some i \<Rightarrow>
          if list_all (valid_text lib) vals then Inr (foldl (\<lambda>n v. at i (F (Some v)) n) net vals)
          else Inl (ValueError ''All strings must be XML compatible''))"
proof (cases "getitem tg var")
  case None
  then show ?thesis by (cases vals) simp_all
next
  case (Some i)
  show ?thesis unfolding Some option.case
    by (rule checked_loop[where G = "\<lambda>txt. at i (F txt)"])
qed

text \<open>The tags and the children of the elements that the writer changes.\<close>

lemma tag_at [simp]: "tag (at i f p) = tag p"
  by (simp add: at_def)

lemma children_at [simp]: "children (at i f p) = (children p)[i := f (children p ! i)]"
  by (simp add: at_def)

lemma tag_SubElement [simp]: "tag (SubElement e t a x) = tag e"
  by (simp add: SubElement_def append_child_def)

lemma children_SubElement [simp]:
  "children (SubElement e t a x) = children e @ [Element t a x None []]"
  by (simp add: SubElement_def append_child_def)

lemma map_tag_update: "tag y = tag (xs ! i) \<Longrightarrow> map tag (xs[i := y]) = map tag xs"
  by (cases "i < length xs") (simp_all add: map_update list_update_same_conv list_update_beyond)

lemma children_append_children [simp]: "children (append_children e cs) = children e @ cs"
  by (simp add: append_children_def)

lemma tag_append_children [simp]: "tag (append_children e cs) = tag e"
  by (simp add: append_children_def)

lemma append_children_Nil [simp]: "append_children e [] = e"
  by (simp add: append_children_def)

lemma append_children_twice [simp]:
  "append_children (append_children e cs) ds = append_children e (cs @ ds)"
  by (simp add: append_children_def)

lemma SubElement_append_children:
  "SubElement e t [] (Some v) = append_children e [leaf t v]"
  by (simp add: SubElement_def append_child_def append_children_def leaf_def)

lemma foldl_SubElement:
  "foldl (\<lambda>e v. SubElement e t [] (Some v)) e vals = append_children e (map (leaf t) vals)"
  by (induction vals arbitrary: e) (simp_all add: SubElement_append_children)

lemma at_id: "(\<And>e. f e = e) \<Longrightarrow> at i f p = p"
  by (simp add: at_def)

lemma at_at: "at i f (at i g p) = at i (\<lambda>e. f (g e)) p"
  by (cases "i < length (children p)") (simp_all add: at_def list_update_beyond)

lemma foldl_at:
  "foldl (\<lambda>n v. at i (F v) n) net vals = at i (\<lambda>e. foldl (\<lambda>e v. F v e) e vals) net"
  by (induction vals arbitrary: net) (simp_all add: at_id at_at)

lemma texts_at:
  "foldl (\<lambda>n v. at i (\<lambda>e. SubElement e t [] (Some v)) n) net vals
     = at i (\<lambda>e. append_children e (map (leaf t) vals)) net"
  by (simp add: foldl_at foldl_SubElement)

text \<open>
  The second and third loop of \<open>add_variables\<close>, one dictionary entry after the other:
  an entry whose key is not filed in \<open>variable_tag\<close> raises KeyError unless its list is
  empty; an entry with a string that the library does not take raises ValueError;
  otherwise the strings of the entry are appended to the element filed under its key.
\<close>

lemma add_texts_Nil [simp]: "add_texts lib t tg [] net = Inr net"
  by (simp add: add_texts_def)

lemma add_texts_Cons:
  "add_texts lib t tg ((var, vals) # d) net =
     (case getitem tg var of
        None \<Rightarrow> if vals = [] then add_texts lib t tg d net else Inl (KeyError (Some var))
      | Some i \<Rightarrow>
          if list_all (valid_text lib) vals
          then add_texts lib t tg d (at i (\<lambda>e. append_children e (map (leaf t) vals)) net)
          else Inl (ValueError ''All strings must be XML compatible''))"
  by (simp add: add_texts_def texts_loop texts_at split: option.splits)

lemma add_texts_Inl:
  "add_texts lib t tg d net = Inl e \<Longrightarrow>
     (\<exists>k. e = KeyError k) \<or> e = ValueError ''All strings must be XML compatible''"
proof (induction d arbitrary: net)
  case Nil
  then show ?case by simp
next
  case (Cons p d)
  obtain var vals where p: "p = (var, vals)" by (cases p)
  from Cons.prems Cons.IH show ?case
    by (auto simp: p add_texts_Cons split: option.splits if_splits)
qed

lemma add_texts_KeyError:
  assumes "add_texts lib t tg d net = Inl e"
    and "\<And>v ss. (v, ss) \<in> set d \<Longrightarrow> list_all (valid_text lib) ss"
  shows "\<exists>k. e = KeyError k"
  using assms
proof (induction d arbitrary: net)
  case Nil
  then show ?case by simp
next
  case (Cons p d)
  obtain var vals where p: "p = (var, vals)" by (cases p)
  have v: "list_all (valid_text lib) vals" using Cons.prems(2)[of var vals] by (simp add: p)
  have q: "list_all (valid_text lib) ss" if "(v, ss) \<in> set d" for v ss
    using Cons.prems(2)[of v ss] that by simp
  have ih: "\<exists>k. e = KeyError k" if "add_texts lib t tg d n = Inl e" for n
    using Cons.IH[OF that] q by blast
  from Cons.prems(1) v ih show ?case
    by (auto simp: p add_texts_Cons split: option.splits if_splits)
qed

lemma add_texts_total:
  assumes "\<And>v ss. (v, ss) \<in> set d \<Longrightarrow> ss \<noteq> [] \<Longrightarrow> v \<in> set (keys tg)"
    and "\<And>v ss. (v, ss) \<in> set d \<Longrightarrow> list_all (valid_text lib) ss"
  shows "\<exists>net'. add_texts lib t tg d net = Inr net'"
  using assms
proof (induction d arbitrary: net)
  case Nil
  show ?case by simp
next
  case (Cons p d)
  obtain var vals where p: "p = (var, vals)" by (cases p)
  have v: "list_all (valid_text lib) vals" using Cons.prems(2)[of var vals] by (simp add: p)
  have q1: "v \<in> set (keys tg)" if "(v, ss) \<in> set d" "ss \<noteq> []" for v ss
    using Cons.prems(1)[of v ss] that by simp
  have q2: "list_all (valid_text lib) ss" if "(v, ss) \<in> set d" for v ss
    using Cons.prems(2)[of v ss] that by simp
  have ih: "\<exists>net'. add_texts lib t tg d n = Inr net'" for n
    using Cons.IH[of n] q1 q2 by blast
  show ?case
  proof (cases "getitem tg var")
    case None
    then have "vals = []" using Cons.prems(1)[of var vals] by (auto simp: p getitem_None_iff)
    with None ih show ?thesis by (simp add: p add_texts_Cons)
  next
    case (Some i)
    with v ih show ?thesis by (simp add: p add_texts_Cons)
  qed
qed

lemma add_texts_tags:
  "add_texts lib t tg d net = Inr net' \<Longrightarrow> map tag (children net') = map tag (children net)"
proof (induction d arbitrary: net)
  case Nil
  then show ?case by simp
next
  case (Cons p d)
  obtain var vals where p: "p = (var, vals)" by (cases p)
  show ?case
  proof (cases "getitem tg var")
    case None
    with Cons show ?thesis by (auto simp: p add_texts_Cons split: if_splits)
  next
    case (Some i)
    with Cons.prems
    have r: "add_texts lib t tg d (at i (\<lambda>e. append_children e (map (leaf t) vals)) net) = Inr net'"
      by (simp add: p add_texts_Cons split: if_splits)
    from Cons.IH[OF r] show ?thesis by (simp add: map_tag_update)
  qed
qed

lemma new_variables_tags:
  "foldl (\<lambda>s var. new_variable var s) (net, tg) xs = (net', tg') \<Longrightarrow>
     map tag (children net') = map tag (children net) @ replicate (length xs) ''VARIABLE''
     \<and> set (keys tg') = set (keys tg) \<union> set xs"
proof (induction xs arbitrary: net tg)
  case Nil
  then show ?case by simp
next
  case (Cons x xs)
  from Cons.IH[of "SubElement net ''VARIABLE'' [(''TYPE'', ''nature'')] None"
      "setitem x (length (children net)) tg"] Cons.prems
  show ?case by (auto simp: new_variable_def keys_setitem replicate_append_same[symmetric]
        simp del: replicate_append_same)
qed

lemma add_variables_eq:
  assumes "model_data.variables md = Some vs"
    and "foldl (\<lambda>s var. new_variable var s) (net, []) (sort vs) = (net1, tg)"
    and "states md = Some st"
  shows "add_variables lib net md =
     (case add_texts lib ''OUTCOME'' tg st net1 of
        Inl e \<Rightarrow> Inl e
      | Inr net2 \<Rightarrow>
          (case property md of
             None \<Rightarrow> Inl (KeyError (Some ''property''))
           | Some pr \<Rightarrow>
               (case add_texts lib ''PROPERTY'' tg pr net2 of
                  Inl e \<Rightarrow> Inl e
                | Inr net3 \<Rightarrow> Inr (net3, tg))))"
  using assms by (simp add: add_variables_def ebind_def split: sum.splits option.splits)

text \<open>
  Without the key \<open>'property'\<close>, \<open>add_variables\<close> raises: KeyError for one of the keys
  it reads or for a key of \<open>'states'\<close> that is not a variable, or the ValueError of a state
  that the library does not take as a text.
\<close>

lemma add_variables_no_property:
  assumes "property md = None"
  shows "\<exists>e. add_variables lib net md = Inl e \<and>
           ((\<exists>k. e = KeyError k) \<or> e = ValueError ''All strings must be XML compatible'') \<and>
           ((\<forall>st. states md = Some st \<longrightarrow> (\<forall>(v, ss) \<in> set st. list_all (valid_text lib) ss))
              \<longrightarrow> (\<exists>k. e = KeyError k))"
proof (cases "model_data.variables md")
  case None
  then show ?thesis by (simp add: add_variables_def)
next
  case (Some vs)
  obtain net1 tg where f: "foldl (\<lambda>s var. new_variable var s) (net, []) (sort vs) = (net1, tg)"
    by (cases "foldl (\<lambda>s var. new_variable var s) (net, []) (sort vs)")
  show ?thesis
  proof (cases "states md")
    case None
    with Some f show ?thesis by (simp add: add_variables_def)
  next
    case st: (Some st)
    show ?thesis
    proof (cases "add_texts lib ''OUTCOME'' tg st net1")
      case (Inl e)
      have "\<exists>k. e = KeyError k" if "\<forall>(v, ss) \<in> set st. list_all (valid_text lib) ss"
        using add_texts_KeyError[OF Inl] that by blast
      with add_texts_Inl[OF Inl] Inl show ?thesis
        unfolding add_variables_eq[OF Some f st] by (simp add: st)
    next
      case (Inr net2)
      with assms show ?thesis unfolding add_variables_eq[OF Some f st] by simp
    qed
  qed
qed

lemma add_variables_property_key:
  assumes "property md = None" and "model_data.variables md = Some vs" and "states md = Some st"
    and "\<And>v ss. (v, ss) \<in> set st \<Longrightarrow> ss \<noteq> [] \<Longrightarrow> v \<in> set vs"
    and "\<And>v ss. (v, ss) \<in> set st \<Longrightarrow> list_all (valid_text lib) ss"
  shows "add_variables lib net md = Inl (KeyError (Some ''property''))"
proof -
  obtain net1 tg where f: "foldl (\<lambda>s var. new_variable var s) (net, []) (sort vs) = (net1, tg)"
    by (cases "foldl (\<lambda>s var. new_variable var s) (net, []) (sort vs)")
  from new_variables_tags[OF f] have k: "set (keys tg) = set vs" by (simp add: keys_def)
  obtain net2 where "add_texts lib ''OUTCOME'' tg st net1 = Inr net2"
    using add_texts_total[of st tg lib "''OUTCOME''" net1] assms(4,5) k by auto
  then show ?thesis unfolding add_variables_eq[OF assms(2) f assms(3)] using assms(1) by simp
qed

text \<open>The statement before the loops: the NAME element of the network.\<close>

lemma network_name_Inl:
  "(case network_name md of
      None \<Rightarrow> Inr net0
    | Some n \<Rightarrow> ebind (text_value lib n) (\<lambda>txt. Inr (SubElement net0 ''NAME'' [] txt))) = Inl e
   \<Longrightarrow> e = ValueError ''All strings must be XML compatible'' \<and>
       (\<exists>n. network_name md = Some n \<and> \<not> valid_text lib n)"
  by (auto simp: text_value_def ebind_def split: option.splits if_splits)

lemma add_texts_ValueError:
  assumes "\<And>v ss. (v, ss) \<in> set d \<Longrightarrow> ss \<noteq> [] \<Longrightarrow> v \<in> set (keys tg)"
    and "\<exists>(v, ss) \<in> set d. \<not> list_all (valid_text lib) ss"
  shows "add_texts lib t tg d net = Inl (ValueError ''All strings must be XML compatible'')"
  using assms
proof (induction d arbitrary: net)
  case Nil
  then show ?case by simp
next
  case (Cons p d)
  obtain var vals where p: "p = (var, vals)" by (cases p)
  have q1: "v \<in> set (keys tg)" if "(v, ss) \<in> set d" "ss \<noteq> []" for v ss
    using Cons.prems(1)[of v ss] that by simp
  have ih: "add_texts lib t tg d n = Inl (ValueError ''All strings must be XML compatible'')"
    if "\<exists>(v, ss) \<in> set d. \<not> list_all (valid_text lib) ss" for n
    using Cons.IH[of n] q1 that by blast
  show ?case
  proof (cases "getitem tg var")
    case None
    then have v: "vals = []" using Cons.prems(1)[of var vals] by (auto simp: p getitem_None_iff)
    with Cons.prems(2) have "\<exists>(v, ss) \<in> set d. \<not> list_all (valid_text lib) ss" by (simp add: p)
    from ih[OF this] None v show ?thesis by (simp add: p add_texts_Cons)
  next
    case (Some i)
    show ?thesis
    proof (cases "list_all (valid_text lib) vals")
      case True
      with Cons.prems(2) have "\<exists>(v, ss) \<in> set d. \<not> list_all (valid_text lib) ss" by (simp add: p)
      from ih[OF this] Some True show ?thesis by (simp add: p add_texts_Cons)
    next
      case False
      with Some show ?thesis by (simp add: p add_texts_Cons)
    qed
  qed
qed

subsection \<open>The keys the writer reads\<close>

text \<open>
  C10 (amended). A model record without the key \<open>'property'\<close> makes the writer's
  constructor fail, whatever else the record holds. The exception is a KeyError, or the
  ValueError with which the XML library refuses a string as the text of an element: the
  network name and the states are written before \<open>self.model['property']\<close> is read. It
  is a KeyError when the library takes the network name and all the states; it is the
  ValueError when it refuses the network name. When the record has \<open>'variables'\<close> and
  \<open>'states'\<close>, a network name that the library takes or none, and every variable with a
  state is one of the variables (\<open>'parents'\<close> is read later and plays no part), the
  exception is the KeyError for the key \<open>'property'\<close> if the library takes all the
  states, and the ValueError otherwise.
\<close>

theorem writer_needs_property:
  assumes "property md = None"
  shows "(\<exists>e. XMLBIFWriter_init lib md enc pp = Inl e \<and>
              ((\<exists>k. e = KeyError k) \<or> e = ValueError ''All strings must be XML compatible'')) \<and>
         ((\<forall>n. network_name md = Some n \<longrightarrow> valid_text lib n) \<and>
          (\<forall>st. states md = Some st \<longrightarrow> (\<forall>(v, ss) \<in> set st. list_all (valid_text lib) ss)) \<longrightarrow>
            (\<exists>k. XMLBIFWriter_init lib md enc pp = Inl (KeyError k))) \<and>
         ((\<exists>n. network_name md = Some n \<and> \<not> valid_text lib n) \<longrightarrow>
            XMLBIFWriter_init lib md enc pp
              = Inl (ValueError ''All strings must be XML compatible'')) \<and>
         (\<forall>vs st. model_data.variables md = Some vs \<and> states md = Some st \<and>
             (\<forall>(v, ss) \<in> set st. ss \<noteq> [] \<longrightarrow> v \<in> set vs) \<and>
             (\<forall>n. network_name md = Some n \<longrightarrow> valid_text lib n) \<longrightarrow>
             XMLBIFWriter_init lib md enc pp
               = Inl (if \<forall>(v, ss) \<in> set st. list_all (valid_text lib) ss
                      then KeyError (Some ''property'')
                      else ValueError ''All strings must be XML compatible''))"
proof -
  let ?msg = "ValueError ''All strings must be XML compatible''"
  let ?n0 = "Element ''NETWORK'' [] None None []"
  let ?nm = "case network_name md of
               None \<Rightarrow> Inr ?n0
             | Some n \<Rightarrow> ebind (text_value lib n) (\<lambda>txt. Inr (SubElement ?n0 ''NAME'' [] txt))"
  let ?valid_states = "\<forall>st. states md = Some st \<longrightarrow> (\<forall>(v, ss) \<in> set st. list_all (valid_text lib) ss)"
  have l: "XMLBIFWriter_init lib md enc pp = Inl e" if "?nm = Inl e" for e
    using that by (simp add: XMLBIFWriter_init_def Let_def ebind_def)
  have r: "XMLBIFWriter_init lib md enc pp = Inl e"
    if "?nm = Inr n1" "add_variables lib n1 md = Inl e" for n1 e
    using that by (simp add: XMLBIFWriter_init_def Let_def ebind_def)
  have nm_ok: "\<exists>n1. ?nm = Inr n1" if "\<forall>n. network_name md = Some n \<longrightarrow> valid_text lib n"
    using that by (cases "network_name md") (simp_all add: text_value_def ebind_def)
  have nm_bad: "?nm = Inl ?msg" if "\<exists>n. network_name md = Some n \<and> \<not> valid_text lib n"
    using that by (auto simp: text_value_def ebind_def)
  have c1: "\<exists>e. XMLBIFWriter_init lib md enc pp = Inl e \<and> ((\<exists>k. e = KeyError k) \<or> e = ?msg)"
  proof (cases ?nm)
    case (Inl e)
    with network_name_Inl[OF Inl] l[OF Inl] show ?thesis by blast
  next
    case (Inr n1)
    from add_variables_no_property[OF assms, of lib n1] obtain e
      where "add_variables lib n1 md = Inl e" "(\<exists>k. e = KeyError k) \<or> e = ?msg" by blast
    with r[OF Inr] show ?thesis by blast
  qed
  have c2: "\<exists>k. XMLBIFWriter_init lib md enc pp = Inl (KeyError k)"
    if n: "\<forall>n. network_name md = Some n \<longrightarrow> valid_text lib n" and s: ?valid_states
  proof -
    from nm_ok[OF n] obtain n1 where n1: "?nm = Inr n1" ..
    from add_variables_no_property[OF assms, of lib n1] s obtain k
      where "add_variables lib n1 md = Inl (KeyError k)" by blast
    with r[OF n1] show ?thesis by blast
  qed
  have c3: "XMLBIFWriter_init lib md enc pp = Inl ?msg"
    if "\<exists>n. network_name md = Some n \<and> \<not> valid_text lib n"
    using l[OF nm_bad[OF that]] .
  have c4: "XMLBIFWriter_init lib md enc pp
               = Inl (if \<forall>(v, ss) \<in> set st. list_all (valid_text lib) ss
                      then KeyError (Some ''property'') else ?msg)"
    if v: "model_data.variables md = Some vs" and st: "states md = Some st"
      and k: "\<forall>(v, ss) \<in> set st. ss \<noteq> [] \<longrightarrow> v \<in> set vs"
      and n: "\<forall>n. network_name md = Some n \<longrightarrow> valid_text lib n" for vs st
  proof -
    from nm_ok[OF n] obtain n1 where n1: "?nm = Inr n1" ..
    show ?thesis
    proof (cases "\<forall>(v, ss) \<in> set st. list_all (valid_text lib) ss")
      case True
      have "add_variables lib n1 md = Inl (KeyError (Some ''property''))"
        using add_variables_property_key[OF assms v st, of lib n1] k True by blast
      with r[OF n1] True show ?thesis by simp
    next
      case False
      obtain net1 tg where f: "foldl (\<lambda>s var. new_variable var s) (n1, []) (sort vs) = (net1, tg)"
        by (cases "foldl (\<lambda>s var. new_variable var s) (n1, []) (sort vs)")
      from new_variables_tags[OF f] have ks: "set (keys tg) = set vs" by (simp add: keys_def)
      have "add_texts lib ''OUTCOME'' tg st net1 = Inl ?msg"
        using add_texts_ValueError[of st tg lib "''OUTCOME''" net1] k ks False by blast
      then have "add_variables lib n1 md = Inl ?msg"
        unfolding add_variables_eq[OF v f st] by simp
      with r[OF n1] False show ?thesis by simp
    qed
  qed
  from c1 c2 c3 c4 show ?thesis by blast
qed

theorem writer_needs_property_witness:
  "property model_no_property = None \<and>
   XMLBIFWriter_init (etree_of [] []) model_no_property ''utf-8'' True
     = Inl (KeyError (Some ''property''))"
proof -
  have h: "property model_no_property = None" by (simp add: model_no_property_def)
  have v: "valid_text (etree_of [] []) ''n''" "valid_text (etree_of [] []) ''t''"
    "valid_text (etree_of [] []) ''f''"
    by (simp_all add: etree_of_def xml_compatible_def)
  have p: "model_data.variables model_no_property = Some [''a''] \<and>
           states model_no_property = Some [(''a'', [''t'', ''f''])] \<and>
           (\<forall>(v, ss) \<in> set [(''a'', [''t'', ''f''])]. ss \<noteq> [] \<longrightarrow> v \<in> set [''a'']) \<and>
           (\<forall>n. network_name model_no_property = Some n \<longrightarrow> valid_text (etree_of [] []) n)"
    using v by (simp add: model_no_property_def)
  have "XMLBIFWriter_init (etree_of [] []) model_no_property ''utf-8'' True
          = Inl (if \<forall>(v, ss) \<in> set [(''a'', [''t'', ''f''])]. list_all (valid_text (etree_of [] [])) ss
                 then KeyError (Some ''property'')
                 else ValueError ''All strings must be XML compatible'')"
    using writer_needs_property[OF h, of "etree_of [] []" "''utf-8''" True,
        THEN conjunct2, THEN conjunct2, THEN conjunct2, rule_format, OF p] .
  with h v show ?thesis by simp
qed

text \<open>
  As the claim is written, the failure would be a missing key for every record without
  \<open>'property'\<close>. Here the record has the other four keys, its only state holds the
  control character with the code 1, and the library is one that, as lxml does, refuses
  such a string: the constructor raises ValueError when it writes the OUTCOME element,
  before it reads \<open>self.model['property']\<close>.
\<close>

theorem control_character_counterexample:
  "property model_control = None \<and>
   XMLBIFWriter_init (etree_of [] []) model_control ''utf-8'' True
     = Inl (ValueError ''All strings must be XML compatible'')"
  by code_simp

subsection \<open>What the writer builds\<close>

lemma texts_for_distinct:
  "distinct (keys d) \<Longrightarrow> texts_for d v = entry d v"
proof (induction d)
  case Nil
  then show ?case by (simp add: texts_for_def entry_def getitem_def)
next
  case (Cons p d)
  obtain k ss where p: "p = (k, ss)" by (cases p)
  from Cons.prems have d: "distinct (keys d)" and k: "k \<notin> set (keys d)"
    by (simp_all add: keys_def p)
  show ?case
  proof (cases "k = v")
    case True
    with k have "filter (\<lambda>p. fst p = v) d = []" by (auto simp: keys_def filter_empty_conv)
    with True show ?thesis by (simp add: texts_for_def entry_def getitem_def p)
  next
    case False
    with Cons.IH[OF d] show ?thesis by (simp add: texts_for_def entry_def getitem_def p)
  qed
qed

lemma children_at_append:
  "children p = B @ xs \<Longrightarrow> j < length xs \<Longrightarrow>
     children (at (length B + j) f p) = B @ xs[j := f (xs ! j)]"
  by (simp add: list_update_append nth_append)

lemma map_fun_upd_distinct:
  "distinct xs \<Longrightarrow> j < length xs \<Longrightarrow> (map g xs)[j := y] = map (g(xs ! j := y)) xs"
  by (rule nth_equalityI) (auto simp: nth_list_update nth_eq_iff_index_eq)

text \<open>
  The second and third loop of \<open>add_variables\<close>, when the children of \<open>self.network\<close>
  are \<open>B\<close> followed by one element \<open>g v\<close> for each of the distinct names \<open>xs\<close>, and
  \<open>variable_tag\<close> refers to them.
\<close>

lemma add_texts_children:
  assumes "distinct xs"
    and "\<And>j. j < length xs \<Longrightarrow> getitem tg (xs ! j) = Some (length B + j)"
    and "set (keys tg) = set xs"
    and "children net = B @ map g xs"
    and "add_texts lib t tg d net = Inr net'"
  shows "children net' = B @ map (\<lambda>v. append_children (g v) (map (leaf t) (texts_for d v))) xs"
  using assms(4,5)
proof (induction d arbitrary: net g)
  case Nil
  then show ?case by (simp add: texts_for_def)
next
  case (Cons p d)
  obtain var vals where p: "p = (var, vals)" by (cases p)
  show ?case
  proof (cases "getitem tg var")
    case None
    with Cons.prems(2) have v: "vals = []" and r: "add_texts lib t tg d net = Inr net'"
      by (auto simp: p add_texts_Cons split: if_splits)
    from None assms(3) have "var \<notin> set xs" by (simp add: getitem_None_iff)
    then have "map (\<lambda>v. append_children (g v) (map (leaf t) (texts_for (p # d) v))) xs
             = map (\<lambda>v. append_children (g v) (map (leaf t) (texts_for d v))) xs"
      by (auto simp: texts_for_def p)
    with Cons.IH[OF Cons.prems(1) r] show ?thesis by simp
  next
    case (Some i)
    then have "var \<in> set xs" using assms(3) getitem_None_iff[of tg var] by auto
    then obtain j where j: "j < length xs" "xs ! j = var" by (auto simp: in_set_conv_nth)
    with assms(2)[of j] Some have i: "i = length B + j" by simp
    let ?g = "g(var := append_children (g var) (map (leaf t) vals))"
    let ?n = "at i (\<lambda>e. append_children e (map (leaf t) vals)) net"
    from Cons.prems(2) Some have r: "add_texts lib t tg d ?n = Inr net'"
      by (simp add: p add_texts_Cons split: if_splits)
    have "children ?n = B @ (map g xs)[j := append_children (g var) (map (leaf t) vals)]"
      unfolding i using children_at_append[OF Cons.prems(1), of j] j by simp
    also have "\<dots> = B @ map ?g xs"
      using map_fun_upd_distinct[OF assms(1) j(1), of g] j(2) by simp
    finally have c: "children ?n = B @ map ?g xs" .
    have "map (\<lambda>v. append_children (?g v) (map (leaf t) (texts_for d v))) xs
        = map (\<lambda>v. append_children (g v) (map (leaf t) (texts_for (p # d) v))) xs"
      by (auto simp: texts_for_def p)
    with Cons.IH[OF c r] show ?thesis by simp
  qed
qed

text \<open>The first loop of \<open>add_variables\<close>.\<close>

lemma new_variables_children:
  assumes "foldl (\<lambda>s var. new_variable var s) (net, []) xs = (net', tg)"
  shows "children net' = children net @ replicate (length xs) (Element ''VARIABLE'' [(''TYPE'', ''nature'')] None None [])
       \<and> (\<forall>v i. getitem tg v = Some i \<longrightarrow>
             length (children net) \<le> i \<and> i < length (children net) + length xs
             \<and> xs ! (i - length (children net)) = v)"
  using assms
proof (induction xs arbitrary: net' tg rule: rev_induct)
  case Nil
  then show ?case by (simp add: getitem_def)
next
  case (snoc x xs)
  obtain n1 t1 where f: "foldl (\<lambda>s var. new_variable var s) (net, []) xs = (n1, t1)"
    by (cases "foldl (\<lambda>s var. new_variable var s) (net, []) xs")
  note ih = snoc.IH[OF f]
  from snoc.prems f have n: "net' = SubElement n1 ''VARIABLE'' [(''TYPE'', ''nature'')] None"
    and t: "tg = setitem x (length (children n1)) t1"
    by (simp_all add: new_variable_def)
  have c: "children net' = children net @ replicate (length (xs @ [x])) (Element ''VARIABLE'' [(''TYPE'', ''nature'')] None None [])"
    using ih n by (simp add: replicate_append_same)
  have "length (children net) \<le> i \<and> i < length (children net) + length (xs @ [x])
             \<and> (xs @ [x]) ! (i - length (children net)) = v" if g: "getitem tg v = Some i" for v i
  proof (cases "v = x")
    case True
    with g t have "i = length (children n1)" by (simp add: getitem_setitem)
    with ih True show ?thesis by simp
  next
    case False
    with g t have "getitem t1 v = Some i" by (simp add: getitem_setitem)
    with ih have "length (children net) \<le> i \<and> i < length (children net) + length xs
             \<and> xs ! (i - length (children net)) = v" by blast
    then show ?thesis by (auto simp: nth_append)
  qed
  with c show ?case by blast
qed

lemma new_variables_positions:
  assumes "foldl (\<lambda>s var. new_variable var s) (net, []) xs = (net', tg)" and "distinct xs"
    and "j < length xs"
  shows "getitem tg (xs ! j) = Some (length (children net) + j)"
proof -
  from new_variables_tags[OF assms(1)] have "set (keys tg) = set xs" by (simp add: keys_def)
  with assms(3) obtain i where i: "getitem tg (xs ! j) = Some i"
    using getitem_None_iff[of tg "xs ! j"] by (cases "getitem tg (xs ! j)") auto
  with new_variables_children[OF assms(1)]
  have b: "length (children net) \<le> i" "i < length (children net) + length xs"
    "xs ! (i - length (children net)) = xs ! j" by blast+
  then have "i - length (children net) = j"
    using assms(2,3) by (simp add: nth_eq_iff_index_eq)
  with b(1) i show ?thesis by simp
qed

text \<open>
  The loop of \<open>add_definition\<close>: one turn appends the DEFINITION element of the
  variable, unless the library refuses its name or the name of one of its parents.
\<close>

lemma new_definition_eq:
  "new_definition lib pa var (net, tg) =
     (if valid_text lib var \<and> list_all (valid_text lib) (sort (entry pa var))
      then Inr (Element (tag net) (attrib net) (etext net) (tail net)
                  (children net @ [spec_definition pa var]),
                setitem var (length (children net)) tg)
      else Inl (ValueError ''All strings must be XML compatible''))"
proof -
  have e: "sort (case getitem pa var of None \<Rightarrow> [] | Some ps \<Rightarrow> ps) = sort (entry pa var)"
    by (simp add: entry_def)
  show ?thesis
    unfolding new_definition_def Let_def prod.case e checked_loop texts_at
    by (simp add: text_value_def ebind_def spec_definition_def append_children_def leaf_def
        SubElement_def append_child_def at_def)
qed

lemma new_definitions_children:
  "efold (\<lambda>var s. new_definition lib pa var s) xs (net, tg) = Inr (net', tg') \<Longrightarrow>
     children net' = children net @ map (spec_definition pa) xs"
proof (induction xs arbitrary: net tg)
  case Nil
  then show ?case by simp
next
  case (Cons x xs)
  let ?n = "Element (tag net) (attrib net) (etext net) (tail net)
              (children net @ [spec_definition pa x])"
  from Cons.prems
  have "efold (\<lambda>var s. new_definition lib pa var s) xs (?n, setitem x (length (children net)) tg)
          = Inr (net', tg')"
    by (simp add: new_definition_eq split: if_splits)
  from Cons.IH[OF this] show ?case by simp
qed

lemma new_definitions_Inl:
  "efold (\<lambda>var s. new_definition lib pa var s) xs (net, tg) = Inl e \<Longrightarrow>
     e = ValueError ''All strings must be XML compatible''"
proof (induction xs arbitrary: net tg)
  case Nil
  then show ?case by simp
next
  case (Cons x xs)
  from Cons.prems Cons.IH show ?case
    by (auto simp: new_definition_eq split: if_splits)
qed

lemma new_definitions_total:
  "(\<And>v. v \<in> set xs \<Longrightarrow> valid_text lib v \<and> list_all (valid_text lib) (entry pa v)) \<Longrightarrow>
     \<exists>r. efold (\<lambda>var s. new_definition lib pa var s) xs (net, tg) = Inr r"
proof (induction xs arbitrary: net tg)
  case Nil
  then show ?case by simp
next
  case (Cons x xs)
  have "list_all (valid_text lib) (sort (entry pa x))"
    using Cons.prems[of x] by (simp add: list_all_iff)
  moreover have "valid_text lib x" using Cons.prems[of x] by simp
  moreover have "\<exists>r. efold (\<lambda>var s. new_definition lib pa var s) xs (n, t) = Inr r" for n t
    using Cons.IH[of n t] Cons.prems by simp
  ultimately show ?case by (simp add: new_definition_eq)
qed

lemma add_variables_Inr_D:
  assumes "add_variables lib net md = Inr (net', tg)"
  shows "\<exists>vs st pr n1 n2.
           model_data.variables md = Some vs \<and> states md = Some st \<and> property md = Some pr \<and>
           foldl (\<lambda>s var. new_variable var s) (net, []) (sort vs) = (n1, tg) \<and>
           add_texts lib ''OUTCOME'' tg st n1 = Inr n2 \<and>
           add_texts lib ''PROPERTY'' tg pr n2 = Inr net'"
proof -
  from assms obtain vs where vs: "model_data.variables md = Some vs"
    by (cases "model_data.variables md") (simp_all add: add_variables_def)
  obtain n1 t1 where f: "foldl (\<lambda>s var. new_variable var s) (net, []) (sort vs) = (n1, t1)"
    by (cases "foldl (\<lambda>s var. new_variable var s) (net, []) (sort vs)")
  from assms vs f obtain st where st: "states md = Some st"
    by (cases "states md") (simp_all add: add_variables_def)
  from assms have "\<exists>pr n2. property md = Some pr \<and> add_texts lib ''OUTCOME'' t1 st n1 = Inr n2 \<and>
           add_texts lib ''PROPERTY'' t1 pr n2 = Inr net' \<and> t1 = tg"
    unfolding add_variables_eq[OF vs f st] by (auto split: sum.splits option.splits)
  with vs f st show ?thesis by blast
qed

lemma add_definition_Inr_D:
  assumes "add_definition lib net md = Inr r"
  shows "\<exists>pa. parents md = Some pa \<and>
           efold (\<lambda>var s. new_definition lib pa var s) (sort (keys pa)) (net, []) = Inr r"
  using assms by (cases "parents md") (auto simp: add_definition_def)

text \<open>The network element before the loops: with the NAME child, or without.\<close>

lemma XMLBIFWriter_init_Inr_D:
  assumes "XMLBIFWriter_init lib md enc pp = Inr w"
  shows "\<exists>vs st pr pa n1 n2 n3.
           model_data.variables md = Some vs \<and> states md = Some st \<and> property md = Some pr \<and>
           parents md = Some pa \<and>
           foldl (\<lambda>s var. new_variable var s)
             (Element ''NETWORK'' [] None None
                (case network_name md of None \<Rightarrow> [] | Some n \<Rightarrow> [leaf ''NAME'' n]), [])
             (sort vs) = (n1, XMLBIFWriter.variables w) \<and>
           add_texts lib ''OUTCOME'' (XMLBIFWriter.variables w) st n1 = Inr n2 \<and>
           add_texts lib ''PROPERTY'' (XMLBIFWriter.variables w) pr n2 = Inr n3 \<and>
           efold (\<lambda>var s. new_definition lib pa var s) (sort (keys pa)) (n3, [])
             = Inr (XMLBIFWriter.network w, definition_tag w)"
proof -
  let ?n0 = "Element ''NETWORK'' [] None None
                (case network_name md of None \<Rightarrow> [] | Some n \<Rightarrow> [leaf ''NAME'' n])"
  let ?nm = "case network_name md of
               None \<Rightarrow> Inr (Element ''NETWORK'' [] None None [])
             | Some n \<Rightarrow> ebind (text_value lib n)
                 (\<lambda>txt. Inr (SubElement (Element ''NETWORK'' [] None None []) ''NAME'' [] txt))"
  from assms obtain net1 where nm: "?nm = Inr net1"
    by (cases ?nm) (simp_all add: XMLBIFWriter_init_def Let_def ebind_def)
  then have n0: "net1 = ?n0"
    by (auto simp: text_value_def ebind_def SubElement_def append_child_def leaf_def
        split: option.splits if_splits)
  from assms nm obtain net2 vtag net3 dtag where
    a: "add_variables lib net1 md = Inr (net2, vtag)"
    and d: "add_definition lib net2 md = Inr (net3, dtag)"
    and w: "w = \<lparr>model = md, encoding = enc, prettyprint = pp,
              xml = append_child (Element ''BIF'' [(''version'', ''0.3'')] None None []) net3,
              network = net3, variables = vtag, definition_tag = dtag\<rparr>"
    unfolding XMLBIFWriter_init_def Let_def by (auto simp: ebind_Inr_iff split: prod.splits)
  from add_variables_Inr_D[OF a] add_definition_Inr_D[OF d] w n0 show ?thesis
    by auto
qed

lemma add_texts_take:
  assumes "add_texts lib t tg d net = Inr net'" and "\<And>v i. getitem tg v = Some i \<Longrightarrow> b \<le> i"
  shows "take b (children net') = take b (children net)"
  using assms(1)
proof (induction d arbitrary: net)
  case Nil
  then show ?case by simp
next
  case (Cons p d)
  obtain var vals where p: "p = (var, vals)" by (cases p)
  show ?case
  proof (cases "getitem tg var")
    case None
    with Cons show ?thesis by (auto simp: p add_texts_Cons split: if_splits)
  next
    case (Some i)
    with Cons.prems
    have "add_texts lib t tg d (at i (\<lambda>e. append_children e (map (leaf t) vals)) net) = Inr net'"
      by (simp add: p add_texts_Cons split: if_splits)
    from Cons.IH[OF this] assms(2)[OF Some] show ?thesis by simp
  qed
qed

lemma writer_network_children:
  assumes "XMLBIFWriter_init lib md enc pp = Inr w"
    and "model_data.variables md = Some vs" and "states md = Some st"
    and "property md = Some pr" and "parents md = Some pa"
    and "name_part = (case network_name md of None \<Rightarrow> [] | Some n \<Rightarrow> [leaf ''NAME'' n])"
  shows "\<exists>V. children (XMLBIFWriter.network w)
                = name_part @ V @ map (spec_definition pa) (sort (keys pa))
           \<and> length V = length vs \<and> (\<forall>e \<in> set V. tag e = ''VARIABLE'')
           \<and> (\<forall>v i. getitem (XMLBIFWriter.variables w) v = Some i \<longrightarrow>
                 (\<exists>j < length vs. i = length name_part + j \<and> sort vs ! j = v))
           \<and> (\<forall>v \<in> set vs. getitem (XMLBIFWriter.variables w) v \<noteq> None)
           \<and> (distinct vs \<longrightarrow> V = map (spec_variable st pr) (sort vs))"
proof -
  let ?tg = "XMLBIFWriter.variables w"
  let ?n0 = "Element ''NETWORK'' [] None None name_part"
  let ?V0 = "Element ''VARIABLE'' [(''TYPE'', ''nature'')] None None []"
  from XMLBIFWriter_init_Inr_D[OF assms(1)] assms(2-6)
  obtain n1 n2 n3 where f: "foldl (\<lambda>s var. new_variable var s) (?n0, []) (sort vs) = (n1, ?tg)"
    and o: "add_texts lib ''OUTCOME'' ?tg st n1 = Inr n2"
    and p: "add_texts lib ''PROPERTY'' ?tg pr n2 = Inr n3"
    and n: "efold (\<lambda>var s. new_definition lib pa var s) (sort (keys pa)) (n3, [])
              = Inr (XMLBIFWriter.network w, definition_tag w)"
    by auto
  have c1: "children n1 = name_part @ replicate (length vs) ?V0"
    and pos: "\<And>v i. getitem ?tg v = Some i \<Longrightarrow>
                 length name_part \<le> i \<and> i < length name_part + length vs
                 \<and> sort vs ! (i - length name_part) = v"
    using new_variables_children[OF f] by auto
  have ks: "set (keys ?tg) = set vs" using new_variables_tags[OF f] by (simp add: keys_def)
  define V where "V = drop (length name_part) (children n3)"
  have tags: "map tag (children n3) = map tag name_part @ replicate (length vs) ''VARIABLE''"
    using add_texts_tags[OF p] add_texts_tags[OF o] c1 by simp
  have "take (length name_part) (children n3) = take (length name_part) (children n1)"
    using add_texts_take[OF p, of "length name_part"] add_texts_take[OF o, of "length name_part"] pos
    by simp
  then have "take (length name_part) (children n3) = name_part" by (simp add: c1)
  then have c3: "children n3 = name_part @ V"
    unfolding V_def by (metis append_take_drop_id)
  from tags c3 have tv: "map tag V = replicate (length vs) ''VARIABLE''" by simp
  then have lv: "length V = length vs" by (metis length_map length_replicate)
  have tagv: "\<forall>e \<in> set V. tag e = ''VARIABLE''"
  proof
    fix e assume "e \<in> set V"
    then have "tag e \<in> set (map tag V)" by simp
    then show "tag e = ''VARIABLE''" unfolding tv by simp
  qed
  have ch: "children (XMLBIFWriter.network w)
              = name_part @ V @ map (spec_definition pa) (sort (keys pa))"
    unfolding new_definitions_children[OF n] c3 by simp
  have posj: "\<exists>j < length vs. i = length name_part + j \<and> sort vs ! j = v"
    if "getitem ?tg v = Some i" for v i
    using pos[OF that] by (intro exI[of _ "i - length name_part"]) auto
  have dom: "\<forall>v \<in> set vs. getitem ?tg v \<noteq> None"
    using ks by (simp add: getitem_None_iff)
  have content: "V = map (spec_variable st pr) (sort vs)" if d: "distinct vs"
  proof -
    have ds: "distinct (sort vs)" using d by simp
    have ks': "set (keys ?tg) = set (sort vs)" using ks by simp
    have p0: "\<And>j. j < length (sort vs) \<Longrightarrow> getitem ?tg (sort vs ! j) = Some (length name_part + j)"
      using new_variables_positions[OF f ds] by simp
    have c1': "children n1 = name_part @ map (\<lambda>v. ?V0) (sort vs)"
      using c1 by (simp add: map_replicate_const)
    note c2 = add_texts_children[OF ds p0 ks' c1' o]
    note c3' = add_texts_children[OF ds p0 ks' c2 p]
    from c3' c3 show ?thesis
      by (simp add: spec_variable_def append_children_def)
  qed
  from ch lv tagv posj dom content show ?thesis by blast
qed

text \<open>
  The constructor returns when the model has its four required keys, every key of
  \<open>'states'\<close> and \<open>'property'\<close> that lists a string is one of the variables, and the
  library takes every string that is written as a text.
\<close>

lemma writer_total:
  assumes "model_data.variables md = Some vs" and "states md = Some st"
    and "property md = Some pr" and "parents md = Some pa"
    and "\<And>v ss. (v, ss) \<in> set st \<Longrightarrow> ss \<noteq> [] \<Longrightarrow> v \<in> set vs"
    and "\<And>v ss. (v, ss) \<in> set pr \<Longrightarrow> ss \<noteq> [] \<Longrightarrow> v \<in> set vs"
    and "\<And>n. network_name md = Some n \<Longrightarrow> valid_text lib n"
    and "\<And>v ss. (v, ss) \<in> set st \<Longrightarrow> list_all (valid_text lib) ss"
    and "\<And>v ss. (v, ss) \<in> set pr \<Longrightarrow> list_all (valid_text lib) ss"
    and "\<And>v ss. (v, ss) \<in> set pa \<Longrightarrow> valid_text lib v \<and> list_all (valid_text lib) ss"
  shows "\<exists>w. XMLBIFWriter_init lib md enc pp = Inr w"
proof -
  have av: "\<exists>n3 tg. add_variables lib net md = Inr (n3, tg)" for net
  proof -
    obtain n1 tg where f: "foldl (\<lambda>s var. new_variable var s) (net, []) (sort vs) = (n1, tg)"
      by (cases "foldl (\<lambda>s var. new_variable var s) (net, []) (sort vs)")
    from new_variables_tags[OF f] have k: "set (keys tg) = set vs" by (simp add: keys_def)
    obtain n2 where o: "add_texts lib ''OUTCOME'' tg st n1 = Inr n2"
      using add_texts_total[of st tg lib "''OUTCOME''" n1] assms(5,8) k by auto
    obtain n3 where p: "add_texts lib ''PROPERTY'' tg pr n2 = Inr n3"
      using add_texts_total[of pr tg lib "''PROPERTY''" n2] assms(6,9) k by auto
    show ?thesis unfolding add_variables_eq[OF assms(1) f assms(2)] using o p assms(3) by simp
  qed
  let ?nm = "case network_name md of
               None \<Rightarrow> Inr (Element ''NETWORK'' [] None None [])
             | Some n \<Rightarrow> ebind (text_value lib n)
                 (\<lambda>txt. Inr (SubElement (Element ''NETWORK'' [] None None []) ''NAME'' [] txt))"
  obtain n1 where nm: "?nm = Inr n1"
    using assms(7) by (cases "network_name md") (simp_all add: text_value_def ebind_def)
  from av obtain n3 tg where a: "add_variables lib n1 md = Inr (n3, tg)" by blast
  have "valid_text lib v \<and> list_all (valid_text lib) (entry pa v)" if "v \<in> set (sort (keys pa))" for v
  proof -
    from that obtain ss where g: "getitem pa v = Some ss"
      using getitem_None_iff[of pa v] by (cases "getitem pa v") auto
    then have "(v, ss) \<in> set pa" by (simp add: getitem_def map_of_SomeD)
    from assms(10)[OF this] g show ?thesis by (simp add: entry_def)
  qed
  from new_definitions_total[of "sort (keys pa)" lib pa n3 "[]", OF this]
  obtain r where "efold (\<lambda>var s. new_definition lib pa var s) (sort (keys pa)) (n3, []) = Inr r"
    by blast
  then obtain n4 dt where d: "add_definition lib n3 md = Inr (n4, dt)"
    using assms(4) by (cases r) (simp add: add_definition_def)
  show ?thesis
    using nm a d by (simp add: XMLBIFWriter_init_def Let_def ebind_def)
qed

subsection \<open>The order of the writer's output\<close>

text \<open>
  C8. When the writer's constructor succeeds on a model with the variables \<open>vs\<close> and the
  parents dictionary \<open>pa\<close>, the children of the NETWORK element are: the NAME element if
  the model has a network name; then one VARIABLE element per variable, the element
  that the writer files under a variable name standing at the position that this name
  has in the sorted list of the variables; then one DEFINITION element per key of
  \<open>pa\<close>, in sorted order of the keys, each with its FOR child followed by the GIVEN
  children in sorted order of the parents. When the variables are distinct, the
  VARIABLE elements are, in sorted order of the variable names, the elements with the
  OUTCOME and PROPERTY children of each name in the order of the model's lists.
\<close>

theorem writer_canonical_order:
  assumes "XMLBIFWriter_init lib md enc pp = Inr w"
    and "model_data.variables md = Some vs" and "states md = Some st"
    and "property md = Some pr" and "parents md = Some pa"
    and "name_part = (case network_name md of None \<Rightarrow> [] | Some n \<Rightarrow> [leaf ''NAME'' n])"
  shows "\<exists>V. children (XMLBIFWriter.network w)
                = name_part @ V @ map (spec_definition pa) (sort (keys pa))
           \<and> length V = length vs \<and> (\<forall>e \<in> set V. tag e = ''VARIABLE'')
           \<and> (\<forall>v i. getitem (XMLBIFWriter.variables w) v = Some i \<longrightarrow>
                 (\<exists>j < length vs. i = length name_part + j \<and> sort vs ! j = v))
           \<and> (\<forall>v \<in> set vs. getitem (XMLBIFWriter.variables w) v \<noteq> None)
           \<and> (distinct vs \<longrightarrow> V = map (spec_variable st pr) (sort vs))"
  using writer_network_children[OF assms] .

theorem writer_canonical_order_witness:
  "\<exists>w. XMLBIFWriter_init (etree_of [] []) model_bac ''utf-8'' True = Inr w \<and>
   children (XMLBIFWriter.network w) =
     [leaf ''NAME'' ''n'',
      Element ''VARIABLE'' [(''TYPE'', ''nature'')] None None [leaf ''OUTCOME'' ''x'', leaf ''PROPERTY'' ''p''],
      Element ''VARIABLE'' [(''TYPE'', ''nature'')] None None [leaf ''OUTCOME'' ''t'', leaf ''OUTCOME'' ''f''],
      Element ''VARIABLE'' [(''TYPE'', ''nature'')] None None [leaf ''OUTCOME'' ''y''],
      Element ''DEFINITION'' [] None None [leaf ''FOR'' ''a''],
      Element ''DEFINITION'' [] None None [leaf ''FOR'' ''b'', leaf ''GIVEN'' ''a'', leaf ''GIVEN'' ''c''],
      Element ''DEFINITION'' [] None None [leaf ''FOR'' ''c'']]"
proof -
  have h2: "model_data.variables model_bac = Some [''b'', ''a'', ''c'']"
    and h3: "states model_bac = Some [(''b'', [''t'', ''f'']), (''c'', [''y'']), (''a'', [''x''])]"
    and h4: "property model_bac = Some [(''a'', [''p''])]"
    and h5: "parents model_bac = Some [(''b'', [''c'', ''a'']), (''a'', []), (''c'', [])]"
    by (simp_all add: model_bac_def)
  have "\<exists>w. XMLBIFWriter_init (etree_of [] []) model_bac ''utf-8'' True = Inr w"
    by (rule writer_total[OF h2 h3 h4 h5])
       (auto simp: model_bac_def etree_of_def xml_compatible_def)
  then obtain w where h1: "XMLBIFWriter_init (etree_of [] []) model_bac ''utf-8'' True = Inr w" ..
  have s1: "sort [''b'', ''a'', ''c''] = [''a'', ''b'', ''c'']" by code_simp
  have s2: "sort (entry [(''b'', [''c'', ''a'']), (''a'', []), (''c'', [])] ''b'') = [''a'', ''c'']"
    by code_simp
  have s3: "sort (keys [(''b'', [''c'', ''a'']), (''a'', []), (''c'', [])]) = [''a'', ''b'', ''c'']"
    by code_simp
  have s4: "sort (entry [(''b'', [''c'', ''a'']), (''a'', []), (''c'', [])] ''a'') = []"
    "sort (entry [(''b'', [''c'', ''a'']), (''a'', []), (''c'', [])] ''c'') = []"
    by code_simp+
  have np: "(case network_name model_bac of None \<Rightarrow> [] | Some n \<Rightarrow> [leaf ''NAME'' n])
              = [leaf ''NAME'' ''n'']"
    by (simp add: model_bac_def)
  have dv: "distinct [''b'', ''a'', ''c'']" by simp
  from writer_canonical_order[OF h1 h2 h3 h4 h5 refl] obtain V where
    c: "children (XMLBIFWriter.network w)
          = (case network_name model_bac of None \<Rightarrow> [] | Some n \<Rightarrow> [leaf ''NAME'' n]) @ V
            @ map (spec_definition [(''b'', [''c'', ''a'']), (''a'', []), (''c'', [])])
                (sort (keys [(''b'', [''c'', ''a'']), (''a'', []), (''c'', [])]))"
    and d: "distinct [''b'', ''a'', ''c''] \<longrightarrow>
            V = map (spec_variable [(''b'', [''t'', ''f'']), (''c'', [''y'']), (''a'', [''x''])] [(''a'', [''p''])])
                  (sort [''b'', ''a'', ''c''])"
    by blast
  from d dv have V: "V = map (spec_variable [(''b'', [''t'', ''f'']), (''c'', [''y'']), (''a'', [''x''])] [(''a'', [''p''])])
                  [''a'', ''b'', ''c'']"
    unfolding s1 by blast
  have "children (XMLBIFWriter.network w) =
     [leaf ''NAME'' ''n'',
      Element ''VARIABLE'' [(''TYPE'', ''nature'')] None None [leaf ''OUTCOME'' ''x'', leaf ''PROPERTY'' ''p''],
      Element ''VARIABLE'' [(''TYPE'', ''nature'')] None None [leaf ''OUTCOME'' ''t'', leaf ''OUTCOME'' ''f''],
      Element ''VARIABLE'' [(''TYPE'', ''nature'')] None None [leaf ''OUTCOME'' ''y''],
      Element ''DEFINITION'' [] None None [leaf ''FOR'' ''a''],
      Element ''DEFINITION'' [] None None [leaf ''FOR'' ''b'', leaf ''GIVEN'' ''a'', leaf ''GIVEN'' ''c''],
      Element ''DEFINITION'' [] None None [leaf ''FOR'' ''c'']]"
    unfolding c V np s3 by (simp add: spec_variable_def spec_definition_def texts_for_def s2 s4)
  with h1 show ?thesis by blast
qed

subsection \<open>A network without a name\<close>

text \<open>
  C9 (amended). The writer recovers from an absent network name: when the model has no
  \<open>'network_name'\<close>, a successful construction gives a NETWORK element without NAME
  child, and the construction does succeed whenever the model has its four other keys,
  every key of \<open>'states'\<close> and \<open>'property'\<close> that lists a string is one of the
  variables, and the XML library takes the states, the properties, the keys of
  \<open>'parents'\<close> and the parents as texts. The reader does not recover: on a NETWORK
  element without NAME child its constructor raises AttributeError.
\<close>

theorem network_name_absent:
  "(network_name md = None \<and> XMLBIFWriter_init lib md enc pp = Inr w \<longrightarrow>
      find_elem ''NAME'' (XMLBIFWriter.network w) = None) \<and>
   (network_name md = None \<and>
    model_data.variables md = Some vs \<and> states md = Some st \<and> property md = Some pr \<and>
    parents md = Some pa \<and>
    (\<forall>(v, ss) \<in> set st. ss \<noteq> [] \<longrightarrow> v \<in> set vs) \<and>
    (\<forall>(v, ss) \<in> set pr. ss \<noteq> [] \<longrightarrow> v \<in> set vs) \<and>
    (\<forall>(v, ss) \<in> set st. list_all (valid_text lib) ss) \<and>
    (\<forall>(v, ss) \<in> set pr. list_all (valid_text lib) ss) \<and>
    (\<forall>(v, ss) \<in> set pa. valid_text lib v \<and> list_all (valid_text lib) ss) \<longrightarrow>
      (\<exists>w'. XMLBIFWriter_init lib md enc pp = Inr w')) \<and>
   (find_elem ''NAME'' net = None \<longrightarrow> init_fields float (Some net) = Inl AttributeError)"
proof (intro conjI impI)
  assume a: "network_name md = None \<and> XMLBIFWriter_init lib md enc pp = Inr w"
  then obtain vs' st' pr' pa' where m: "model_data.variables md = Some vs'" "states md = Some st'"
    "property md = Some pr'" "parents md = Some pa'"
    using XMLBIFWriter_init_Inr_D[of lib md enc pp w] by auto
  from writer_network_children[OF conjunct2[OF a] m refl] a
  obtain V where c: "children (XMLBIFWriter.network w) = V @ map (spec_definition pa') (sort (keys pa'))"
    and t: "\<forall>e \<in> set V. tag e = ''VARIABLE''" by auto
  have "filter (\<lambda>c. tag c = ''NAME'') (children (XMLBIFWriter.network w)) = []"
    unfolding c using t by (auto simp: filter_empty_conv spec_definition_def)
  then show "find_elem ''NAME'' (XMLBIFWriter.network w) = None"
    by (simp add: find_elem_def findall_def)
next
  assume a: "network_name md = None \<and>
    model_data.variables md = Some vs \<and> states md = Some st \<and> property md = Some pr \<and>
    parents md = Some pa \<and>
    (\<forall>(v, ss) \<in> set st. ss \<noteq> [] \<longrightarrow> v \<in> set vs) \<and>
    (\<forall>(v, ss) \<in> set pr. ss \<noteq> [] \<longrightarrow> v \<in> set vs) \<and>
    (\<forall>(v, ss) \<in> set st. list_all (valid_text lib) ss) \<and>
    (\<forall>(v, ss) \<in> set pr. list_all (valid_text lib) ss) \<and>
    (\<forall>(v, ss) \<in> set pa. valid_text lib v \<and> list_all (valid_text lib) ss)"
  show "\<exists>w'. XMLBIFWriter_init lib md enc pp = Inr w'"
    by (rule writer_total[of md vs st pr pa lib enc pp]; insert a; auto)
next
  assume "find_elem ''NAME'' net = None"
  then show "init_fields float (Some net) = Inl AttributeError"
    by (simp add: init_fields_def find_text_def ebind_def)
qed

theorem network_name_absent_witness:
  fixes w0 :: XMLBIFWriter
  shows "network_name model_unnamed = None \<and>
   (\<exists>w. XMLBIFWriter_init (etree_of [] []) model_unnamed ''utf-8'' True = Inr w
        \<and> find_elem ''NAME'' (XMLBIFWriter.network w) = None) \<and>
   find_elem ''NAME'' (node ''NETWORK'' [node ''VARIABLE'' [leaf ''NAME'' ''a'', leaf ''OUTCOME'' ''t'']]) = None \<and>
   init_fields Some (Some (node ''NETWORK'' [node ''VARIABLE'' [leaf ''NAME'' ''a'', leaf ''OUTCOME'' ''t'']]))
     = (Inl AttributeError :: error + string XMLBIFReader)"
proof -
  let ?net = "node ''NETWORK'' [node ''VARIABLE'' [leaf ''NAME'' ''a'', leaf ''OUTCOME'' ''t'']]"
  let ?lib = "etree_of [] []"
  let ?st = "[(''b'', [''t'', ''f'']), (''c'', [''y'']), (''a'', [''x''])]"
  let ?pr = "[(''a'', [''p''])]"
  let ?pa = "[(''b'', [''c'', ''a'']), (''a'', []), (''c'', [])]"
  have h0: "network_name model_unnamed = None" by (simp add: model_unnamed_def)
  have h1: "network_name model_unnamed = None \<and>
    model_data.variables model_unnamed = Some [''b'', ''a'', ''c''] \<and>
    states model_unnamed = Some ?st \<and>
    property model_unnamed = Some ?pr \<and>
    parents model_unnamed = Some ?pa \<and>
    (\<forall>(v, ss) \<in> set ?st. ss \<noteq> [] \<longrightarrow> v \<in> set [''b'', ''a'', ''c'']) \<and>
    (\<forall>(v, ss) \<in> set ?pr. ss \<noteq> [] \<longrightarrow> v \<in> set [''b'', ''a'', ''c'']) \<and>
    (\<forall>(v, ss) \<in> set ?st. list_all (valid_text ?lib) ss) \<and>
    (\<forall>(v, ss) \<in> set ?pr. list_all (valid_text ?lib) ss) \<and>
    (\<forall>(v, ss) \<in> set ?pa. valid_text ?lib v \<and> list_all (valid_text ?lib) ss)"
    by (simp add: model_unnamed_def etree_of_def xml_compatible_def)
  have h2: "find_elem ''NAME'' ?net = None" by code_simp
  have e: "\<exists>w'. XMLBIFWriter_init ?lib model_unnamed ''utf-8'' True = Inr w'"
    using network_name_absent[of model_unnamed ?lib "''utf-8''" True w0
        "[''b'', ''a'', ''c'']" ?st ?pr ?pa ?net Some,
        THEN conjunct2, THEN conjunct1]
      h1 by (rule mp)
  then obtain w where w: "XMLBIFWriter_init ?lib model_unnamed ''utf-8'' True = Inr w" ..
  have n: "find_elem ''NAME'' (XMLBIFWriter.network w) = None"
    using network_name_absent[of model_unnamed ?lib "''utf-8''" True w _ _ _ _ ?net Some,
        THEN conjunct1] conjI[OF h0 w] by (rule mp)
  have r: "init_fields Some (Some ?net) = (Inl AttributeError :: error + string XMLBIFReader)"
    using network_name_absent[of model_unnamed ?lib "''utf-8''" True w _ _ _ _ ?net Some,
        THEN conjunct2, THEN conjunct2] h2 by (rule mp)
  from w n have "\<exists>w. XMLBIFWriter_init ?lib model_unnamed ''utf-8'' True = Inr w
        \<and> find_elem ''NAME'' (XMLBIFWriter.network w) = None" by blast
  with h0 h2 r show ?thesis by (intro conjI)
qed

text \<open>
  As the claim is written, the reader would complete its construction with no network
  name. Here the file holds a document whose NETWORK element has a VARIABLE and no NAME.
\<close>

theorem reader_unnamed_counterexample:
  "find_elem ''NAME'' (node ''NETWORK'' [node ''VARIABLE'' [leaf ''NAME'' ''a'', leaf ''OUTCOME'' ''t'']]) = None \<and>
   read_file doc_unnamed = Inl AttributeError"
  by code_simp

subsection \<open>Reshaping\<close>

lemma concat_rows: "k * m \<le> length xs \<Longrightarrow>
   concat (map (\<lambda>i. take m (drop (i * m) xs)) [0..<k]) = take (k * m) xs"
proof (induction k)
  case 0
  then show ?case by simp
next
  case (Suc k)
  then have ih: "concat (map (\<lambda>i. take m (drop (i * m) xs)) [0..<k]) = take (k * m) xs" by simp
  have t: "take (Suc k * m) xs = take (k * m) xs @ take m (drop (k * m) xs)"
  proof -
    have "Suc k * m = k * m + m" by simp
    then show ?thesis by (simp only: take_add)
  qed
  have "concat (map (\<lambda>i. take m (drop (i * m) xs)) [0..<Suc k])
          = concat (map (\<lambda>i. take m (drop (i * m) xs)) [0..<k]) @ take m (drop (k * m) xs)"
    by simp
  also have "\<dots> = take (k * m) xs @ take m (drop (k * m) xs)" by (simp only: ih)
  also have "\<dots> = take (Suc k * m) xs" by (simp only: t)
  finally show ?case .
qed

lemma row_length:
  assumes "length xs = k * m" and "i < k"
  shows "length (take m (drop (i * m) xs)) = m"
proof -
  from assms(2) have "Suc i * m \<le> k * m" by (intro mult_le_mono1) simp
  then have le: "i * m + m \<le> k * m" by (simp add: add.commute)
  have "length (take m (drop (i * m) xs)) = min (length xs - i * m) m" by simp
  also have "\<dots> = min (k * m - i * m) m" by (simp only: assms(1))
  also have "\<dots> = m" using le unfolding min_def by (cases "k * m - i * m \<le> m") simp_all
  finally show ?thesis .
qed

lemma reshape_Inr:
  assumes "length xs = k * m"
  shows "\<exists>M. reshape (k, m) xs = Inr M \<and> length M = k \<and> (\<forall>row \<in> set M. length row = m)
           \<and> concat M = xs"
proof -
  let ?M = "map (\<lambda>i. take m (drop (i * m) xs)) [0..<k]"
  have r: "reshape (k, m) xs = Inr ?M" using assms by (simp add: reshape_def)
  have rows: "\<forall>row \<in> set ?M. length row = m"
  proof
    fix row assume "row \<in> set ?M"
    then obtain i where "i < k" "row = take m (drop (i * m) xs)" by auto
    with row_length[OF assms] show "length row = m" by blast
  qed
  have "concat ?M = take (k * m) xs" by (rule concat_rows) (simp add: assms)
  then have c: "concat ?M = xs" by (simp only: assms[symmetric] take_all order_refl)
  have l: "length ?M = k" by simp
  from r rows c l show ?thesis by blast
qed

lemma reshape_Inl:
  "length xs \<noteq> k * m \<Longrightarrow> reshape (k, m) xs = Inl (ValueError ''cannot reshape array'')"
  by (simp add: reshape_def)

lemma cpd_array_ok:
  assumes "getitem vstates v = Some sts" and "sts \<noteq> []" and "length xs = length sts * m"
  shows "\<exists>M. cpd_array vstates (v, xs) = Inr (v, M) \<and> length M = length sts
           \<and> (\<forall>row \<in> set M. length row = m) \<and> concat M = xs"
proof -
  from assms(2) have "0 < length sts" by simp
  then have "length sts * m div length sts = m" by simp
  then have dv: "length xs div length sts = m" by (simp only: assms(3))
  from reshape_Inr[OF assms(3)] obtain M where
    M: "reshape (length sts, m) xs = Inr M" "length M = length sts"
    "\<forall>row \<in> set M. length row = m" "concat M = xs" by blast
  have "cpd_array vstates (v, xs) = Inr (v, M)"
    unfolding cpd_array_def using assms(1,2) M(1) by (simp add: dv ebind_def)
  with M show ?thesis by blast
qed

lemma cpd_array_uneven:
  assumes "getitem vstates v = Some sts" and "\<not> length sts dvd length xs"
  shows "cpd_array vstates (v, xs)
           = (if sts = [] then Inl ZeroDivisionError else Inl (ValueError ''cannot reshape array''))"
proof -
  from assms(2) have "length xs \<noteq> length sts * (length xs div length sts)"
    by (metis dvd_triv_left)
  then show ?thesis using assms(1) by (simp add: cpd_array_def reshape_Inl ebind_def)
qed

lemma cpd_array_Inr_D:
  assumes "cpd_array vstates (v, xs) = Inr y"
  shows "\<exists>sts. getitem vstates v = Some sts \<and> sts \<noteq> [] \<and> length sts dvd length xs"
proof -
  from assms obtain sts where s: "getitem vstates v = Some sts" "sts \<noteq> []"
    by (cases "getitem vstates v") (auto simp: cpd_array_def split: if_splits)
  have "length sts dvd length xs"
  proof (rule ccontr)
    assume "\<not> length sts dvd length xs"
    from cpd_array_uneven[OF s(1) this] assms show False by (simp split: if_splits)
  qed
  with s show ?thesis by blast
qed

lemma cpd_array_Inl_nonempty:
  assumes "cpd_array vstates (v, xs) = Inl e" and "getitem vstates v = Some sts" and "sts \<noteq> []"
  shows "e = ValueError ''cannot reshape array''"
  using assms by (auto simp: cpd_array_def reshape_def ebind_Inl_iff split: if_splits)

lemma cpd_lists_distinct: "cpd_lists float net = Inr tabs \<Longrightarrow> distinct (keys tabs)"
  by (auto simp: cpd_lists_def ebind_Inr_iff distinct_dict_of)

lemma get_cpd_lists: "cpd_lists float net = Inr tabs \<Longrightarrow>
   get_cpd float net vstates = emap (cpd_array vstates) tabs"
  by (simp add: get_cpd_def ebind_def)

lemma getitem_mem: "getitem d k = Some x \<Longrightarrow> (k, x) \<in> set d"
  by (simp add: getitem_def map_of_SomeD)

lemma getitem_distinct: "distinct (keys d) \<Longrightarrow> (k, x) \<in> set d \<Longrightarrow> getitem d k = Some x"
  by (simp add: getitem_def keys_def)

subsection \<open>The conditional probability tables\<close>

text \<open>The floats of a TABLE: its text parses to the list \<open>xs\<close>.\<close>

lemma map_float_iff:
  "map (\<lambda>tok. case float tok of None \<Rightarrow> Inl e | Some x \<Rightarrow> Inr x) toks = map Inr xs
     \<longleftrightarrow> map float toks = map Some xs"
proof (induction toks arbitrary: xs)
  case Nil
  then show ?case by auto
next
  case (Cons tok toks)
  then show ?case by (cases xs) (auto split: option.splits)
qed

lemma table_values_Inr_iff:
  "table_values float t = Inr xs \<longleftrightarrow> (\<exists>s. etext t = Some s \<and> map float (split s) = map Some xs)"
  by (cases "etext t") (simp_all add: table_values_def emap_Inr_iff map_float_iff)

lemma cpd_item_Inr_iff:
  "cpd_item float (d, t) = Inr it
     \<longleftrightarrow> find_text ''FOR'' d = Inr (fst it) \<and> table_values float t = Inr (snd it)"
  by (cases it) (auto simp: cpd_item_def ebind_Inr_iff)

text \<open>
  The first statement of \<open>get_cpd\<close>: the dictionary holds, for a variable, the floats of
  the last TABLE that stands under a DEFINITION for this variable, and every entry of
  the dictionary comes from a TABLE.
\<close>

lemma cpd_lists_last:
  assumes "cpd_lists float net = Inr tabs"
    and "definition_tables net = pre @ (d, t) # post"
    and "find_text ''FOR'' d = Inr v"
    and "table_values float t = Inr xs"
    and "\<forall>(d', t') \<in> set post. find_text ''FOR'' d' \<noteq> Inr v"
  shows "getitem tabs v = Some xs"
proof -
  from assms(1) obtain items where items: "map (cpd_item float) (definition_tables net) = map Inr items"
    and tabs: "tabs = dict_of items"
    by (auto simp: cpd_lists_def ebind_Inr_iff emap_Inr_iff)
  from items assms(2) obtain i1 it i2 where sp: "items = i1 @ it # i2"
    "cpd_item float (d, t) = Inr it" "map (cpd_item float) post = map Inr i2"
    using map_append_Cons_Inr[of "cpd_item float" pre "(d, t)" post items] by auto
  from sp(2) assms(3,4) have it: "it = (v, xs)"
    by (cases it) (simp add: cpd_item_Inr_iff)
  have "v \<notin> fst ` set i2"
  proof
    assume "v \<in> fst ` set i2"
    then obtain ys where "(v, ys) \<in> set i2" by auto
    then obtain x where x: "x \<in> set post" "cpd_item float x = Inr (v, ys)"
      using map_Inr_mem[OF sp(3)] by blast
    obtain d' t' where dt: "x = (d', t')" by (cases x)
    from x(2) have "find_text ''FOR'' d' = Inr v" by (simp add: dt cpd_item_Inr_iff)
    with assms(5) x(1) show False by (auto simp: dt)
  qed
  then show ?thesis
    unfolding tabs sp(1) it getitem_dict_of by (rule map_of_rev_last)
qed

lemma cpd_lists_entry:
  assumes "cpd_lists float net = Inr tabs" and "(u, ys) \<in> set tabs"
  shows "\<exists>(d, t) \<in> set (definition_tables net).
           find_text ''FOR'' d = Inr u \<and> table_values float t = Inr ys"
proof -
  from assms(1) obtain items where items: "map (cpd_item float) (definition_tables net) = map Inr items"
    and tabs: "tabs = dict_of items"
    by (auto simp: cpd_lists_def ebind_Inr_iff emap_Inr_iff)
  from getitem_distinct[OF cpd_lists_distinct[OF assms(1)] assms(2)]
  have "map_of (rev items) u = Some ys" by (simp add: tabs getitem_dict_of)
  then have "(u, ys) \<in> set items" using map_of_SomeD by fastforce
  then obtain x where x: "x \<in> set (definition_tables net)" "cpd_item float x = Inr (u, ys)"
    using map_Inr_mem[OF items] by blast
  obtain d t where dt: "x = (d, t)" by (cases x)
  from x(2) have "find_text ''FOR'' d = Inr u \<and> table_values float t = Inr ys"
    by (simp add: dt cpd_item_Inr_iff)
  with x(1) show ?thesis by (auto simp: dt)
qed

lemma cpd_lists_total:
  assumes "\<forall>(d, t) \<in> set (definition_tables net).
             \<exists>u ys. find_text ''FOR'' d = Inr u \<and> table_values float t = Inr ys"
  shows "\<exists>tabs. cpd_lists float net = Inr tabs"
proof -
  have "\<exists>it. cpd_item float x = Inr it" if "x \<in> set (definition_tables net)" for x
  proof -
    obtain d t where dt: "x = (d, t)" by (cases x)
    with assms that obtain u ys where "find_text ''FOR'' d = Inr u" "table_values float t = Inr ys"
      by auto
    then have "cpd_item float (d, t) = Inr (u, ys)" by (simp add: cpd_item_Inr_iff)
    then show ?thesis by (auto simp: dt)
  qed
  from emap_total[of "definition_tables net" "cpd_item float", OF this]
  show ?thesis by (auto simp: cpd_lists_def ebind_def)
qed

lemma get_cpd_entry:
  assumes "cpd_lists float net = Inr tabs" and "get_cpd float net vstates = Inr cpd"
    and "getitem tabs v = Some xs"
  shows "\<exists>M. cpd_array vstates (v, xs) = Inr (v, M) \<and> getitem cpd v = Some M"
proof -
  from assms(1,2) have m: "map (cpd_array vstates) tabs = map Inr cpd"
    by (simp add: get_cpd_lists emap_Inr_iff)
  have keys_eq: "fst y = fst x" if "cpd_array vstates x = Inr y" for x y
    using that by (cases x) (auto simp: cpd_array_def ebind_Inr_iff split: option.splits if_splits)
  have "keys cpd = keys tabs"
  proof (rule nth_equalityI)
    show l: "length (keys cpd) = length (keys tabs)"
      using m by (metis keys_def length_map)
    fix i assume "i < length (keys cpd)"
    then have i: "i < length tabs" "i < length cpd" using l by (simp_all add: keys_def)
    from m i have "cpd_array vstates (tabs ! i) = Inr (cpd ! i)"
      by (metis nth_map)
    from keys_eq[OF this] i show "keys cpd ! i = keys tabs ! i" by (simp add: keys_def)
  qed
  with cpd_lists_distinct[OF assms(1)] have d: "distinct (keys cpd)" by simp
  from getitem_mem[OF assms(3)] m obtain y where y: "y \<in> set cpd" "cpd_array vstates (v, xs) = Inr y"
    using map_Inr_mem2[OF m] by blast
  from keys_eq[OF y(2)] obtain M where "y = (v, M)" by (cases y) auto
  with y d show ?thesis using getitem_distinct by fastforce
qed

text \<open>
  \<open>get_cpd\<close> on a document whose last TABLE for the variable \<open>v\<close> has a text that
  parses to the floats \<open>xs\<close>.
\<close>

lemma get_cpd_last_table:
  assumes "get_cpd float net vstates = Inr cpd"
    and "definition_tables net = pre @ (d, t) # post"
    and "find_text ''FOR'' d = Inr v"
    and "\<forall>(d', t') \<in> set post. find_text ''FOR'' d' \<noteq> Inr v"
    and "etext t = Some s" and "map float (split s) = map Some xs"
  shows "\<exists>M. cpd_array vstates (v, xs) = Inr (v, M) \<and> getitem cpd v = Some M"
proof -
  from assms(1) obtain tabs where tabs: "cpd_lists float net = Inr tabs"
    by (auto simp: get_cpd_def ebind_Inr_iff)
  have "table_values float t = Inr xs"
    using assms(5,6) by (auto simp: table_values_Inr_iff)
  from cpd_lists_last[OF tabs assms(2,3) this assms(4)]
  have "getitem tabs v = Some xs" .
  from get_cpd_entry[OF tabs assms(1) this] show ?thesis .
qed

lemma get_cpd_uneven:
  assumes "definition_tables net = pre @ (d, t) # post"
    and "find_text ''FOR'' d = Inr v"
    and "\<forall>(d', t') \<in> set post. find_text ''FOR'' d' \<noteq> Inr v"
    and "etext t = Some s" and "map float (split s) = map Some xs"
    and "getitem vstates v = Some sts" and "\<not> length sts dvd length xs"
  shows "\<exists>e. get_cpd float net vstates = Inl e"
proof (cases "cpd_lists float net")
  case (Inl e)
  then show ?thesis by (simp add: get_cpd_def ebind_def)
next
  case (Inr tabs)
  have "table_values float t = Inr xs"
    using assms(4,5) by (auto simp: table_values_Inr_iff)
  from cpd_lists_last[OF Inr assms(1,2) this assms(3)]
  have g: "getitem tabs v = Some xs" .
  from cpd_array_uneven[OF assms(6,7)] obtain e where "cpd_array vstates (v, xs) = Inl e"
    by (cases "sts = []") auto
  from emap_fails[where f = "cpd_array vstates", OF getitem_mem[OF g] this] show ?thesis
    unfolding get_cpd_lists[OF Inr] .
qed

text \<open>
  A document in which every TABLE stands under a DEFINITION with a FOR child, has a
  text that parses to floats, and belongs to a variable with at least one state.
\<close>

lemma tables_parse:
  assumes "\<forall>(d, t) \<in> set (definition_tables net). \<exists>u s ys ss.
             find_text ''FOR'' d = Inr u \<and> etext t = Some s \<and>
             map float (split s) = map Some ys \<and> getitem vstates u = Some ss \<and> P ss ys"
  shows "\<exists>tabs. cpd_lists float net = Inr tabs \<and>
           (\<forall>(u, ys) \<in> set tabs. \<exists>ss. getitem vstates u = Some ss \<and> P ss ys)"
proof -
  have "\<forall>(d, t) \<in> set (definition_tables net).
          \<exists>u ys. find_text ''FOR'' d = Inr u \<and> table_values float t = Inr ys"
    using assms unfolding table_values_Inr_iff by fast
  from cpd_lists_total[OF this] obtain tabs where tabs: "cpd_lists float net = Inr tabs" ..
  have "\<exists>ss. getitem vstates u = Some ss \<and> P ss ys" if "(u, ys) \<in> set tabs" for u ys
  proof -
    from cpd_lists_entry[OF tabs that] obtain d t where dt: "(d, t) \<in> set (definition_tables net)"
      "find_text ''FOR'' d = Inr u" "table_values float t = Inr ys" by auto
    from assms dt(1) obtain u' s' ys' ss where a: "find_text ''FOR'' d = Inr u'" "etext t = Some s'"
      "map float (split s') = map Some ys'" "getitem vstates u' = Some ss" "P ss ys'"
      by fast
    from dt(3) a(2,3) have "map Some ys = map Some ys'"
      by (auto simp: table_values_Inr_iff)
    then have "ys = ys'" by (simp add: inj_map_eq_map)
    with a dt(2) show ?thesis by auto
  qed
  with tabs show ?thesis by blast
qed

text \<open>
  The TABLE elements that the first statement of \<open>get_cpd\<close> runs through, in terms of
  the DEFINITION children of the network and their TABLE children.
\<close>

lemma tables_ball:
  "(\<forall>(d, t) \<in> set (definition_tables net). P d t) \<longleftrightarrow>
   (\<forall>d \<in> set (findall ''DEFINITION'' net). \<forall>t \<in> set (findall ''TABLE'' d). P d t)"
  by (auto simp: definition_tables_def)

lemma definition_tables_last:
  assumes "findall ''DEFINITION'' net = ds1 @ d # ds2" and "findall ''TABLE'' d = ts1 @ [t]"
    and "\<forall>d' \<in> set ds2. find_text ''FOR'' d' = Inr v \<longrightarrow> findall ''TABLE'' d' = []"
  shows "\<exists>pre post. definition_tables net = pre @ (d, t) # post \<and>
           (\<forall>(d', t') \<in> set post. find_text ''FOR'' d' \<noteq> Inr v)"
proof -
  let ?F = "\<lambda>definition. map (\<lambda>table. (definition, table)) (findall ''TABLE'' definition)"
  let ?pre = "concat (map ?F ds1) @ map (\<lambda>table. (d, table)) ts1"
  let ?post = "concat (map ?F ds2)"
  have "definition_tables net = ?pre @ (d, t) # ?post"
    by (simp add: definition_tables_def assms(1,2))
  moreover have "\<forall>(d', t') \<in> set ?post. find_text ''FOR'' d' \<noteq> Inr v"
    using assms(3) by auto
  ultimately show ?thesis by blast
qed

text \<open>
  C5 (amended). \<open>vstates\<close> is the reader's \<open>variable_states\<close>. Let \<open>t\<close> be the last
  TABLE child of a DEFINITION element \<open>d\<close> of the network with the FOR text \<open>v\<close>, no
  later DEFINITION element with this FOR text having a TABLE child; let the text of \<open>t\<close>
  parse to the floats \<open>xs\<close>, and let \<open>v\<close> have \<open>k\<close> states, with \<open>k * m\<close> the number of
  the floats. Whenever \<open>get_cpd\<close> returns, it maps \<open>v\<close> to a matrix of \<open>k\<close> rows of
  length \<open>m\<close> whose rows, one after the other, are \<open>xs\<close>. And \<open>get_cpd\<close> does return
  when every TABLE of the network stands under a DEFINITION with a FOR child, has a
  text that parses to floats, and belongs to a variable with at least one state whose
  number of states divides the number of the floats.
\<close>

theorem cpd_reshape:
  "(get_cpd float net vstates = Inr cpd \<and>
    findall ''DEFINITION'' net = ds1 @ d # ds2 \<and> find_text ''FOR'' d = Inr v \<and>
    findall ''TABLE'' d = ts1 @ [t] \<and>
    (\<forall>d' \<in> set ds2. find_text ''FOR'' d' = Inr v \<longrightarrow> findall ''TABLE'' d' = []) \<and>
    etext t = Some s \<and> map float (split s) = map Some xs \<and>
    getitem vstates v = Some sts \<and> length xs = length sts * m \<longrightarrow>
      (\<exists>M. getitem cpd v = Some M \<and> length M = length sts \<and>
           (\<forall>row \<in> set M. length row = m) \<and> concat M = xs)) \<and>
   ((\<forall>d' \<in> set (findall ''DEFINITION'' net). \<forall>t' \<in> set (findall ''TABLE'' d'). \<exists>u s' ys ss.
        find_text ''FOR'' d' = Inr u \<and> etext t' = Some s' \<and>
        map float (split s') = map Some ys \<and> getitem vstates u = Some ss \<and>
        ss \<noteq> [] \<and> length ss dvd length ys) \<longrightarrow>
      (\<exists>cpd'. get_cpd float net vstates = Inr cpd'))"
proof (intro conjI impI)
  assume a: "get_cpd float net vstates = Inr cpd \<and>
    findall ''DEFINITION'' net = ds1 @ d # ds2 \<and> find_text ''FOR'' d = Inr v \<and>
    findall ''TABLE'' d = ts1 @ [t] \<and>
    (\<forall>d' \<in> set ds2. find_text ''FOR'' d' = Inr v \<longrightarrow> findall ''TABLE'' d' = []) \<and>
    etext t = Some s \<and> map float (split s) = map Some xs \<and>
    getitem vstates v = Some sts \<and> length xs = length sts * m"
  then obtain pre post where dt: "definition_tables net = pre @ (d, t) # post"
    "\<forall>(d', t') \<in> set post. find_text ''FOR'' d' \<noteq> Inr v"
    using definition_tables_last[of net ds1 d ds2 ts1 t v] by blast
  from a obtain M where M: "cpd_array vstates (v, xs) = Inr (v, M)" "getitem cpd v = Some M"
    using get_cpd_last_table[of float net vstates cpd pre d t post v s xs, OF _ dt(1) _ dt(2)]
    by blast
  from cpd_array_Inr_D[OF M(1)] a have "sts \<noteq> []" by auto
  from cpd_array_ok[of vstates v sts xs m] a this M(1)
  have "length M = length sts \<and> (\<forall>row \<in> set M. length row = m) \<and> concat M = xs" by auto
  with M(2) show "\<exists>M. getitem cpd v = Some M \<and> length M = length sts \<and>
                 (\<forall>row \<in> set M. length row = m) \<and> concat M = xs" by blast
next
  assume "\<forall>d' \<in> set (findall ''DEFINITION'' net). \<forall>t' \<in> set (findall ''TABLE'' d'). \<exists>u s' ys ss.
        find_text ''FOR'' d' = Inr u \<and> etext t' = Some s' \<and>
        map float (split s') = map Some ys \<and> getitem vstates u = Some ss \<and>
        ss \<noteq> [] \<and> length ss dvd length ys"
  then have a: "\<forall>(d', t') \<in> set (definition_tables net). \<exists>u s' ys ss.
        find_text ''FOR'' d' = Inr u \<and> etext t' = Some s' \<and>
        map float (split s') = map Some ys \<and> getitem vstates u = Some ss \<and>
        ss \<noteq> [] \<and> length ss dvd length ys"
    by (simp only: tables_ball)
  from tables_parse[where P = "\<lambda>ss ys. ss \<noteq> [] \<and> length ss dvd length ys", OF a]
  obtain tabs where tabs: "cpd_lists float net = Inr tabs"
    and st: "\<forall>(u, ys) \<in> set tabs. \<exists>ss. getitem vstates u = Some ss \<and> ss \<noteq> [] \<and> length ss dvd length ys"
    by blast
  have "\<exists>y. cpd_array vstates x = Inr y" if "x \<in> set tabs" for x
  proof -
    obtain u ys where x: "x = (u, ys)" by (cases x)
    with st that obtain ss where ss: "getitem vstates u = Some ss" "ss \<noteq> []" "length ss dvd length ys"
      by auto
    then obtain m where "length ys = length ss * m" by (auto simp: dvd_def)
    from cpd_array_ok[OF ss(1,2) this] x show ?thesis by blast
  qed
  then show "\<exists>cpd'. get_cpd float net vstates = Inr cpd'"
    unfolding get_cpd_lists[OF tabs] by (rule emap_total)
qed

theorem cpd_reshape_witness:
  "get_states net_light
     = Inr [(Some ''family-out'', [Some ''true'', Some ''false'']),
            (Some ''light-on'', [Some ''true'', Some ''false''])] \<and>
   (\<exists>cpd M. get_cpd float_text net_light
             [(Some ''family-out'', [Some ''true'', Some ''false'']),
              (Some ''light-on'', [Some ''true'', Some ''false''])] = Inr cpd \<and>
           getitem cpd (Some ''light-on'') = Some M \<and> length M = 2 \<and>
           (\<forall>row \<in> set M. length row = 2) \<and>
           concat M = [''0.6'', ''0.4'', ''0.05'', ''0.95'']) \<and>
   map_sum id variable_CPD
     (XMLBIFReader_init (lib_file doc_light) float_text (Some ''net.xml'') None)
     = Inr [(Some ''family-out'', [[''0.15''], [''0.85'']]),
            (Some ''light-on'', [[''0.6'', ''0.4''], [''0.05'', ''0.95'']])]"
proof -
  let ?tf = "[Some ''true'', Some ''false'']"
  let ?st = "[(Some ''family-out'', ?tf), (Some ''light-on'', ?tf)]"
  let ?t1 = "leaf ''TABLE'' ''0.15 0.85''"
  let ?d1 = "node ''DEFINITION'' [leaf ''FOR'' ''family-out'', ?t1]"
  let ?t2 = "leaf ''TABLE'' ''0.6 0.4 0.05 0.95''"
  let ?d2 = "node ''DEFINITION'' [leaf ''FOR'' ''light-on'', leaf ''GIVEN'' ''family-out'', ?t2]"
  let ?x1 = "[''0.15'', ''0.85'']"
  let ?x2 = "[''0.6'', ''0.4'', ''0.05'', ''0.95'']"
  have gs: "get_states net_light = Inr ?st" by code_simp
  have fd: "findall ''DEFINITION'' net_light = [?d1] @ ?d2 # []" by code_simp
  have ft1: "findall ''TABLE'' ?d1 = [] @ [?t1]" and ft2: "findall ''TABLE'' ?d2 = [] @ [?t2]"
    by code_simp+
  have f1: "find_text ''FOR'' ?d1 = Inr (Some ''family-out'')"
    and f2: "find_text ''FOR'' ?d2 = Inr (Some ''light-on'')" by code_simp+
  have e1: "etext ?t1 = Some ''0.15 0.85''" and e2: "etext ?t2 = Some ''0.6 0.4 0.05 0.95''"
    by (simp_all add: leaf_def)
  have p1: "map float_text (split ''0.15 0.85'') = map Some ?x1"
    and p2: "map float_text (split ''0.6 0.4 0.05 0.95'') = map Some ?x2" by code_simp+
  have s1: "getitem ?st (Some ''family-out'') = Some ?tf"
    and s2: "getitem ?st (Some ''light-on'') = Some ?tf" by (simp_all add: getitem_def)
  have ne: "?tf \<noteq> []" by simp
  have d1: "length ?tf dvd length ?x1" and d2: "length ?tf dvd length ?x2" by code_simp+
  have l2: "length ?x2 = length ?tf * 2" by simp
  have q1: "\<exists>u s' ys ss. find_text ''FOR'' ?d1 = Inr u \<and> etext ?t1 = Some s' \<and>
        map float_text (split s') = map Some ys \<and> getitem ?st u = Some ss \<and>
        ss \<noteq> [] \<and> length ss dvd length ys"
    using f1 e1 p1 s1 ne d1 by blast
  have q2: "\<exists>u s' ys ss. find_text ''FOR'' ?d2 = Inr u \<and> etext ?t2 = Some s' \<and>
        map float_text (split s') = map Some ys \<and> getitem ?st u = Some ss \<and>
        ss \<noteq> [] \<and> length ss dvd length ys"
    using f2 e2 p2 s2 ne d2 by blast
  have h: "\<forall>d' \<in> set (findall ''DEFINITION'' net_light). \<forall>t' \<in> set (findall ''TABLE'' d').
        \<exists>u s' ys ss. find_text ''FOR'' d' = Inr u \<and> etext t' = Some s' \<and>
        map float_text (split s') = map Some ys \<and> getitem ?st u = Some ss \<and>
        ss \<noteq> [] \<and> length ss dvd length ys"
  proof (intro ballI)
    fix d' t'
    assume d: "d' \<in> set (findall ''DEFINITION'' net_light)"
      and t: "t' \<in> set (findall ''TABLE'' d')"
    from d have "d' = ?d1 \<or> d' = ?d2" unfolding fd by simp
    then show "\<exists>u s' ys ss. find_text ''FOR'' d' = Inr u \<and> etext t' = Some s' \<and>
        map float_text (split s') = map Some ys \<and> getitem ?st u = Some ss \<and>
        ss \<noteq> [] \<and> length ss dvd length ys"
    proof
      assume e: "d' = ?d1"
      from t have e': "t' = ?t1" unfolding e ft1 by simp
      show ?thesis unfolding e e' by (rule q1)
    next
      assume e: "d' = ?d2"
      from t have e': "t' = ?t2" unfolding e ft2 by simp
      show ?thesis unfolding e e' by (rule q2)
    qed
  qed
  obtain cpd where c: "get_cpd float_text net_light ?st = Inr cpd"
    using cpd_reshape[where float = float_text and net = net_light and vstates = ?st,
        THEN conjunct2] h by blast
  have h3: "get_cpd float_text net_light ?st = Inr cpd \<and>
    findall ''DEFINITION'' net_light = [?d1] @ ?d2 # [] \<and>
    find_text ''FOR'' ?d2 = Inr (Some ''light-on'') \<and>
    findall ''TABLE'' ?d2 = [] @ [?t2] \<and>
    (\<forall>d' \<in> set []. find_text ''FOR'' d' = Inr (Some ''light-on'') \<longrightarrow> findall ''TABLE'' d' = []) \<and>
    etext ?t2 = Some ''0.6 0.4 0.05 0.95'' \<and>
    map float_text (split ''0.6 0.4 0.05 0.95'') = map Some ?x2 \<and>
    getitem ?st (Some ''light-on'') = Some ?tf \<and> length ?x2 = length ?tf * 2"
    using c fd f2 ft2 e2 p2 s2 l2 by (intro conjI) simp_all
  have "\<exists>M. getitem cpd (Some ''light-on'') = Some M \<and> length M = length ?tf \<and>
           (\<forall>row \<in> set M. length row = 2) \<and> concat M = ?x2"
    using cpd_reshape[where float = float_text and net = net_light and vstates = ?st
        and cpd = cpd and ?ds1.0 = "[?d1]" and d = ?d2 and ?ds2.0 = "[]" and ?ts1.0 = "[]"
        and t = ?t2 and v = "Some ''light-on''" and s = "''0.6 0.4 0.05 0.95''" and xs = ?x2
        and sts = ?tf and m = 2, THEN conjunct1] h3 by (rule mp)
  with c have r: "\<exists>cpd M. get_cpd float_text net_light ?st = Inr cpd \<and>
           getitem cpd (Some ''light-on'') = Some M \<and> length M = 2 \<and>
           (\<forall>row \<in> set M. length row = 2) \<and> concat M = ?x2"
    by auto
  have rd: "map_sum id variable_CPD
     (XMLBIFReader_init (lib_file doc_light) float_text (Some ''net.xml'') None)
     = Inr [(Some ''family-out'', [[''0.15''], [''0.85'']]),
            (Some ''light-on'', [[''0.6'', ''0.4''], [''0.05'', ''0.95'']])]"
    by code_simp
  from gs r rd show ?thesis by (intro conjI)
qed

text \<open>
  As the claim is written, for every TABLE text of a variable, it fails when a later
  TABLE belongs to the same variable: the dictionary keeps the floats of the later one.
  Here the variable \<open>a\<close> has two states and a TABLE of four numbers, followed by a second
  DEFINITION for \<open>a\<close> with a TABLE of two numbers: the reader maps \<open>a\<close> to the matrix of
  two rows of length one of the second TABLE.
\<close>

theorem cpd_overwritten_counterexample:
  "findall ''DEFINITION'' (net_tables [''t'', ''f''] [''0.1 0.2 0.3 0.4'', ''0.5 0.5''])
     = [node ''DEFINITION'' [leaf ''FOR'' ''a'', leaf ''TABLE'' ''0.1 0.2 0.3 0.4''],
        node ''DEFINITION'' [leaf ''FOR'' ''a'', leaf ''TABLE'' ''0.5 0.5'']] \<and>
   map float_text (split ''0.1 0.2 0.3 0.4'') = map Some [''0.1'', ''0.2'', ''0.3'', ''0.4''] \<and>
   map_sum id variable_states
     (XMLBIFReader_init (lib_file (doc_tables [''t'', ''f''] [''0.1 0.2 0.3 0.4'', ''0.5 0.5'']))
        float_text (Some ''net.xml'') None)
     = Inr [(Some ''a'', [Some ''t'', Some ''f''])] \<and>
   map_sum id variable_CPD
     (XMLBIFReader_init (lib_file (doc_tables [''t'', ''f''] [''0.1 0.2 0.3 0.4'', ''0.5 0.5'']))
        float_text (Some ''net.xml'') None)
     = Inr [(Some ''a'', [[''0.5''], [''0.5'']])]"
  by code_simp

text \<open>
  C6 (amended). \<open>get_cpd\<close> does not return when the last TABLE of a variable with \<open>k\<close>
  states has a text that parses to a number of floats that \<open>k\<close> does not divide, or
  when some TABLE text holds a token that \<open>float\<close> does not accept: it raises. The
  exception is the ValueError of numpy's \<open>reshape\<close> in the first case, when every TABLE
  of the network stands under a DEFINITION with a FOR child, has a text that parses to
  floats, and belongs to a variable with at least one state; it is the ValueError of
  \<open>float\<close> in the second case, when every DEFINITION with a TABLE has its FOR child and
  every TABLE has a text.
\<close>

lemma table_values_bad_token:
  assumes "etext t = Some s" and "tok \<in> set (split s)" and "float tok = None"
  shows "\<exists>e. table_values float t = Inl e"
proof -
  let ?f = "\<lambda>tok. case float tok of
                    None \<Rightarrow> Inl (ValueError ''could not convert string to float'')
                  | Some x \<Rightarrow> Inr x"
  have "?f tok = Inl (ValueError ''could not convert string to float'')"
    using assms(3) by simp
  from emap_fails[where f = ?f, OF assms(2) this] assms(1) show ?thesis
    by (simp add: table_values_def)
qed

lemma cpd_item_bad_token:
  assumes "etext t = Some s" and "tok \<in> set (split s)" and "float tok = None"
  shows "\<exists>e. cpd_item float (d, t) = Inl e"
  using table_values_bad_token[of t s tok float, OF assms]
  by (cases "find_text ''FOR'' d") (auto simp: cpd_item_def ebind_def)

lemma table_values_Inl_text:
  "table_values float t = Inl e \<Longrightarrow> etext t \<noteq> None \<Longrightarrow>
     e = ValueError ''could not convert string to float''"
  by (auto simp: table_values_def split: option.splits dest!: emap_Inl_D)

lemma get_cpd_uneven_kind:
  assumes "\<exists>e. get_cpd float net vstates = Inl e"
    and "\<forall>(d', t') \<in> set (definition_tables net). \<exists>u s' ys ss.
        find_text ''FOR'' d' = Inr u \<and> etext t' = Some s' \<and>
        map float (split s') = map Some ys \<and> getitem vstates u = Some ss \<and> ss \<noteq> []"
  shows "get_cpd float net vstates = Inl (ValueError ''cannot reshape array'')"
proof -
  from tables_parse[where P = "\<lambda>ss ys. ss \<noteq> []", OF assms(2)]
  obtain tabs where tabs: "cpd_lists float net = Inr tabs"
    and st: "\<forall>(u, ys) \<in> set tabs. \<exists>ss. getitem vstates u = Some ss \<and> ss \<noteq> []"
    by blast
  from assms(1) obtain e where e: "get_cpd float net vstates = Inl e" by blast
  then obtain x where x: "x \<in> set tabs" "cpd_array vstates x = Inl e"
    unfolding get_cpd_lists[OF tabs] by (auto dest!: emap_Inl_D)
  obtain u ys where "x = (u, ys)" by (cases x)
  with x st cpd_array_Inl_nonempty[of vstates u ys e] have "e = ValueError ''cannot reshape array''"
    by fastforce
  with e show ?thesis by simp
qed

lemma get_cpd_bad_token:
  assumes "(d, t) \<in> set (definition_tables net)" and "etext t = Some s"
    and "tok \<in> set (split s)" and "float tok = None"
  shows "\<exists>e. cpd_lists float net = Inl e"
proof -
  from cpd_item_bad_token[of t s tok float d, OF assms(2,3,4)]
  obtain e where "cpd_item float (d, t) = Inl e" by blast
  from emap_fails[where f = "cpd_item float", OF assms(1) this] show ?thesis
    by (auto simp: cpd_lists_def ebind_def)
qed

lemma get_cpd_bad_token_kind:
  assumes "cpd_lists float net = Inl e"
    and "\<forall>(d', t') \<in> set (definition_tables net). find_elem ''FOR'' d' \<noteq> None \<and> etext t' \<noteq> None"
  shows "e = ValueError ''could not convert string to float''"
proof -
  from assms(1) obtain x where x: "x \<in> set (definition_tables net)" "cpd_item float x = Inl e"
    by (auto simp: cpd_lists_def ebind_Inl_iff dest!: emap_Inl_D)
  obtain d' t' where dt: "x = (d', t')" by (cases x)
  with x assms(2) have f: "find_elem ''FOR'' d' \<noteq> None" "etext t' \<noteq> None" by auto
  from x(2) f(1) have "table_values float t' = Inl e"
    by (auto simp: dt cpd_item_def find_text_def ebind_Inl_iff split: option.splits)
  from table_values_Inl_text[OF this f(2)] show ?thesis .
qed

theorem cpd_rejects_table:
  "(findall ''DEFINITION'' net = ds1 @ d # ds2 \<and> find_text ''FOR'' d = Inr v \<and>
    findall ''TABLE'' d = ts1 @ [t] \<and>
    (\<forall>d' \<in> set ds2. find_text ''FOR'' d' = Inr v \<longrightarrow> findall ''TABLE'' d' = []) \<and>
    etext t = Some s \<and> map float (split s) = map Some xs \<and>
    getitem vstates v = Some sts \<and> \<not> length sts dvd length xs \<longrightarrow>
      (\<exists>e. get_cpd float net vstates = Inl e)) \<and>
   (findall ''DEFINITION'' net = ds1 @ d # ds2 \<and> find_text ''FOR'' d = Inr v \<and>
    findall ''TABLE'' d = ts1 @ [t] \<and>
    (\<forall>d' \<in> set ds2. find_text ''FOR'' d' = Inr v \<longrightarrow> findall ''TABLE'' d' = []) \<and>
    etext t = Some s \<and> map float (split s) = map Some xs \<and>
    getitem vstates v = Some sts \<and> \<not> length sts dvd length xs \<and>
    (\<forall>d' \<in> set (findall ''DEFINITION'' net). \<forall>t' \<in> set (findall ''TABLE'' d'). \<exists>u s' ys ss.
        find_text ''FOR'' d' = Inr u \<and> etext t' = Some s' \<and>
        map float (split s') = map Some ys \<and> getitem vstates u = Some ss \<and> ss \<noteq> []) \<longrightarrow>
      get_cpd float net vstates = Inl (ValueError ''cannot reshape array'')) \<and>
   (d0 \<in> set (findall ''DEFINITION'' net) \<and> t0 \<in> set (findall ''TABLE'' d0) \<and>
    etext t0 = Some s0 \<and> tok \<in> set (split s0) \<and> float tok = None \<longrightarrow>
      (\<exists>e. get_cpd float net vstates = Inl e)) \<and>
   (d0 \<in> set (findall ''DEFINITION'' net) \<and> t0 \<in> set (findall ''TABLE'' d0) \<and>
    etext t0 = Some s0 \<and> tok \<in> set (split s0) \<and> float tok = None \<and>
    (\<forall>d' \<in> set (findall ''DEFINITION'' net). \<forall>t' \<in> set (findall ''TABLE'' d').
        find_elem ''FOR'' d' \<noteq> None \<and> etext t' \<noteq> None) \<longrightarrow>
      get_cpd float net vstates = Inl (ValueError ''could not convert string to float''))"
proof -
  have uneven: "\<exists>e. get_cpd float net vstates = Inl e"
    if a: "findall ''DEFINITION'' net = ds1 @ d # ds2" "find_text ''FOR'' d = Inr v"
      "findall ''TABLE'' d = ts1 @ [t]"
      "\<forall>d' \<in> set ds2. find_text ''FOR'' d' = Inr v \<longrightarrow> findall ''TABLE'' d' = []"
      "etext t = Some s" "map float (split s) = map Some xs"
      "getitem vstates v = Some sts" "\<not> length sts dvd length xs"
  proof -
    from definition_tables_last[OF a(1,3,4)] obtain pre post
      where dt: "definition_tables net = pre @ (d, t) # post"
        "\<forall>(d', t') \<in> set post. find_text ''FOR'' d' \<noteq> Inr v" by blast
    from get_cpd_uneven[OF dt(1) a(2) dt(2) a(5,6,7,8)] show ?thesis .
  qed
  have uneven_kind: "get_cpd float net vstates = Inl (ValueError ''cannot reshape array'')"
    if a: "findall ''DEFINITION'' net = ds1 @ d # ds2" "find_text ''FOR'' d = Inr v"
      "findall ''TABLE'' d = ts1 @ [t]"
      "\<forall>d' \<in> set ds2. find_text ''FOR'' d' = Inr v \<longrightarrow> findall ''TABLE'' d' = []"
      "etext t = Some s" "map float (split s) = map Some xs"
      "getitem vstates v = Some sts" "\<not> length sts dvd length xs"
    and b: "\<forall>d' \<in> set (findall ''DEFINITION'' net). \<forall>t' \<in> set (findall ''TABLE'' d'). \<exists>u s' ys ss.
        find_text ''FOR'' d' = Inr u \<and> etext t' = Some s' \<and>
        map float (split s') = map Some ys \<and> getitem vstates u = Some ss \<and> ss \<noteq> []"
  proof -
    from b have b': "\<forall>(d', t') \<in> set (definition_tables net). \<exists>u s' ys ss.
        find_text ''FOR'' d' = Inr u \<and> etext t' = Some s' \<and>
        map float (split s') = map Some ys \<and> getitem vstates u = Some ss \<and> ss \<noteq> []"
      by (simp only: tables_ball)
    from get_cpd_uneven_kind[OF uneven[OF a] b'] show ?thesis .
  qed
  have lift: "get_cpd float net vstates = Inl e" if "cpd_lists float net = Inl e" for e
    using that by (simp add: get_cpd_def ebind_def)
  have token: "\<exists>e. cpd_lists float net = Inl e"
    if a: "d0 \<in> set (findall ''DEFINITION'' net)" "t0 \<in> set (findall ''TABLE'' d0)"
      "etext t0 = Some s0" "tok \<in> set (split s0)" "float tok = None"
  proof -
    from a(1,2) have m: "(d0, t0) \<in> set (definition_tables net)"
      by (auto simp: definition_tables_def)
    show ?thesis
      by (rule get_cpd_bad_token[where d = d0 and t = t0 and s = s0 and tok = tok and float = float])
         (fact m a(3) a(4) a(5))+
  qed
  have token_kind: "get_cpd float net vstates = Inl (ValueError ''could not convert string to float'')"
    if a: "d0 \<in> set (findall ''DEFINITION'' net)" "t0 \<in> set (findall ''TABLE'' d0)"
      "etext t0 = Some s0" "tok \<in> set (split s0)" "float tok = None"
    and b: "\<forall>d' \<in> set (findall ''DEFINITION'' net). \<forall>t' \<in> set (findall ''TABLE'' d').
        find_elem ''FOR'' d' \<noteq> None \<and> etext t' \<noteq> None"
  proof -
    from b have b': "\<forall>(d', t') \<in> set (definition_tables net).
        find_elem ''FOR'' d' \<noteq> None \<and> etext t' \<noteq> None"
      by (simp only: tables_ball)
    from token[OF a] obtain e where e: "cpd_lists float net = Inl e" by blast
    from get_cpd_bad_token_kind[OF e b'] lift[OF e] show ?thesis by simp
  qed
  show ?thesis
    using uneven uneven_kind token token_kind lift by blast
qed

theorem cpd_rejects_table_witness:
  "get_states (net_tables [''t'', ''f''] [''0.1 0.2 0.7'']) = Inr [(Some ''a'', [Some ''t'', Some ''f''])] \<and>
   get_cpd float_text (net_tables [''t'', ''f''] [''0.1 0.2 0.7'']) [(Some ''a'', [Some ''t'', Some ''f''])]
     = Inl (ValueError ''cannot reshape array'') \<and>
   get_cpd float_text (net_tables [''t'', ''f''] [''0.1 high'']) [(Some ''a'', [Some ''t'', Some ''f''])]
     = Inl (ValueError ''could not convert string to float'') \<and>
   XMLBIFReader_init (lib_file (doc_tables [''t'', ''f''] [''0.1 0.2 0.7''])) float_text
     (Some ''net.xml'') None = Inl (ValueError ''cannot reshape array'') \<and>
   XMLBIFReader_init (lib_file (doc_tables [''t'', ''f''] [''0.1 high''])) float_text
     (Some ''net.xml'') None = Inl (ValueError ''could not convert string to float'')"
proof -
  let ?tf = "[Some ''t'', Some ''f'']"
  let ?st = "[(Some ''a'', ?tf)]"
  let ?n1 = "net_tables [''t'', ''f''] [''0.1 0.2 0.7'']"
  let ?n2 = "net_tables [''t'', ''f''] [''0.1 high'']"
  let ?t1 = "leaf ''TABLE'' ''0.1 0.2 0.7''"
  let ?d1 = "node ''DEFINITION'' [leaf ''FOR'' ''a'', ?t1]"
  let ?t2 = "leaf ''TABLE'' ''0.1 high''"
  let ?d2 = "node ''DEFINITION'' [leaf ''FOR'' ''a'', ?t2]"
  let ?xs = "[''0.1'', ''0.2'', ''0.7'']"
  have gs: "get_states ?n1 = Inr ?st" by code_simp
  have a1: "findall ''DEFINITION'' ?n1 = [] @ ?d1 # []" by code_simp
  have a1': "findall ''TABLE'' ?d1 = [] @ [?t1]" by code_simp
  have a2: "find_text ''FOR'' ?d1 = Inr (Some ''a'')" by code_simp
  have a3: "etext ?t1 = Some ''0.1 0.2 0.7''" by (simp add: leaf_def)
  have a4: "map float_text (split ''0.1 0.2 0.7'') = map Some ?xs" by code_simp
  have a5: "getitem ?st (Some ''a'') = Some ?tf" by (simp add: getitem_def)
  have a6: "\<not> length ?tf dvd length ?xs" by code_simp
  have ne: "?tf \<noteq> []" by simp
  have q: "\<exists>u s' ys ss. find_text ''FOR'' ?d1 = Inr u \<and> etext ?t1 = Some s' \<and>
        map float_text (split s') = map Some ys \<and> getitem ?st u = Some ss \<and> ss \<noteq> []"
    using a2 a3 a4 a5 ne by blast
  have a7: "\<forall>d' \<in> set (findall ''DEFINITION'' ?n1). \<forall>t' \<in> set (findall ''TABLE'' d').
        \<exists>u s' ys ss. find_text ''FOR'' d' = Inr u \<and> etext t' = Some s' \<and>
        map float_text (split s') = map Some ys \<and> getitem ?st u = Some ss \<and> ss \<noteq> []"
  proof (intro ballI)
    fix d' t'
    assume d: "d' \<in> set (findall ''DEFINITION'' ?n1)" and t: "t' \<in> set (findall ''TABLE'' d')"
    from d have e: "d' = ?d1" unfolding a1 by simp
    from t have e': "t' = ?t1" unfolding e a1' by simp
    show "\<exists>u s' ys ss. find_text ''FOR'' d' = Inr u \<and> etext t' = Some s' \<and>
        map float_text (split s') = map Some ys \<and> getitem ?st u = Some ss \<and> ss \<noteq> []"
      unfolding e e' by (rule q)
  qed
  have a: "findall ''DEFINITION'' ?n1 = [] @ ?d1 # [] \<and> find_text ''FOR'' ?d1 = Inr (Some ''a'') \<and>
    findall ''TABLE'' ?d1 = [] @ [?t1] \<and>
    (\<forall>d' \<in> set []. find_text ''FOR'' d' = Inr (Some ''a'') \<longrightarrow> findall ''TABLE'' d' = []) \<and>
    etext ?t1 = Some ''0.1 0.2 0.7'' \<and> map float_text (split ''0.1 0.2 0.7'') = map Some ?xs \<and>
    getitem ?st (Some ''a'') = Some ?tf \<and> \<not> length ?tf dvd length ?xs \<and>
    (\<forall>d' \<in> set (findall ''DEFINITION'' ?n1). \<forall>t' \<in> set (findall ''TABLE'' d').
        \<exists>u s' ys ss. find_text ''FOR'' d' = Inr u \<and> etext t' = Some s' \<and>
        map float_text (split s') = map Some ys \<and> getitem ?st u = Some ss \<and> ss \<noteq> [])"
    using a1 a1' a2 a3 a4 a5 a6 a7 by (intro conjI) simp_all
  have b1: "findall ''DEFINITION'' ?n2 = [?d2]" by code_simp
  have b1': "findall ''TABLE'' ?d2 = [?t2]" by code_simp
  have b2: "split ''0.1 high'' = [''0.1'', ''high'']" by code_simp
  have b3: "float_text ''high'' = None" by code_simp
  have b4: "find_elem ''FOR'' ?d2 \<noteq> None" by code_simp
  have b5: "etext ?t2 = Some ''0.1 high''" by (simp add: leaf_def)
  have b6: "\<forall>d' \<in> set (findall ''DEFINITION'' ?n2). \<forall>t' \<in> set (findall ''TABLE'' d').
        find_elem ''FOR'' d' \<noteq> None \<and> etext t' \<noteq> None"
  proof (intro ballI)
    fix d' t'
    assume d: "d' \<in> set (findall ''DEFINITION'' ?n2)" and t: "t' \<in> set (findall ''TABLE'' d')"
    from d have e: "d' = ?d2" unfolding b1 by simp
    from t have e': "t' = ?t2" unfolding e b1' by simp
    show "find_elem ''FOR'' d' \<noteq> None \<and> etext t' \<noteq> None"
      unfolding e e' using b4 b5 by simp
  qed
  have b: "?d2 \<in> set (findall ''DEFINITION'' ?n2) \<and> ?t2 \<in> set (findall ''TABLE'' ?d2) \<and>
           etext ?t2 = Some ''0.1 high'' \<and>
           ''high'' \<in> set (split ''0.1 high'') \<and> float_text ''high'' = None \<and>
           (\<forall>d' \<in> set (findall ''DEFINITION'' ?n2). \<forall>t' \<in> set (findall ''TABLE'' d').
              find_elem ''FOR'' d' \<noteq> None \<and> etext t' \<noteq> None)"
    using b3 b5 b6 by (intro conjI) (simp_all add: b1 b1' b2)
  have r1: "get_cpd float_text ?n1 ?st = Inl (ValueError ''cannot reshape array'')"
    using cpd_rejects_table[where float = float_text and net = ?n1 and vstates = ?st
        and ?ds1.0 = "[]" and d = ?d1 and ?ds2.0 = "[]" and ?ts1.0 = "[]" and t = ?t1
        and v = "Some ''a''" and s = "''0.1 0.2 0.7''" and xs = ?xs and sts = ?tf,
        THEN conjunct2, THEN conjunct1] a by (rule mp)
  have r2: "get_cpd float_text ?n2 ?st = Inl (ValueError ''could not convert string to float'')"
    using cpd_rejects_table[where float = float_text and net = ?n2 and vstates = ?st
        and ?d0.0 = ?d2 and ?t0.0 = ?t2 and ?s0.0 = "''0.1 high''" and tok = "''high''",
        THEN conjunct2, THEN conjunct2, THEN conjunct2] b by (rule mp)
  have r3: "XMLBIFReader_init (lib_file (doc_tables [''t'', ''f''] [''0.1 0.2 0.7''])) float_text
     (Some ''net.xml'') None = Inl (ValueError ''cannot reshape array'')"
    and r4: "XMLBIFReader_init (lib_file (doc_tables [''t'', ''f''] [''0.1 high''])) float_text
     (Some ''net.xml'') None = Inl (ValueError ''could not convert string to float'')"
    by code_simp+
  from gs r1 r2 r3 r4 show ?thesis by (intro conjI)
qed

text \<open>
  As the claim is written, for every TABLE text of a variable, it fails when a later
  TABLE belongs to the same variable. Here the variable \<open>a\<close> has two states and a TABLE
  of three numbers, followed by a second DEFINITION for \<open>a\<close> with a TABLE of two
  numbers: the reader is constructed, nothing is raised for the first TABLE, and \<open>a\<close>
  is mapped to the matrix of the second.
\<close>

theorem uneven_overwritten_counterexample:
  "findall ''DEFINITION'' (net_tables [''t'', ''f''] [''0.1 0.2 0.7'', ''0.4 0.6''])
     = [node ''DEFINITION'' [leaf ''FOR'' ''a'', leaf ''TABLE'' ''0.1 0.2 0.7''],
        node ''DEFINITION'' [leaf ''FOR'' ''a'', leaf ''TABLE'' ''0.4 0.6'']] \<and>
   map float_text (split ''0.1 0.2 0.7'') = map Some [''0.1'', ''0.2'', ''0.7''] \<and>
   map_sum id variable_states
     (XMLBIFReader_init (lib_file (doc_tables [''t'', ''f''] [''0.1 0.2 0.7'', ''0.4 0.6'']))
        float_text (Some ''net.xml'') None)
     = Inr [(Some ''a'', [Some ''t'', Some ''f''])] \<and>
   map_sum id variable_CPD
     (XMLBIFReader_init (lib_file (doc_tables [''t'', ''f''] [''0.1 0.2 0.7'', ''0.4 0.6'']))
        float_text (Some ''net.xml'') None)
     = Inr [(Some ''a'', [[''0.4''], [''0.6'']])]"
  by code_simp

end
